theory Spec2Isabelle
  imports Complex_Main "HOL-Library.Signed_Division"
begin

section \<open>Numerical integration of Gaussian products on uniform grids\<close>

text \<open>
  A shallow embedding of \<^verbatim>\<open>pyscf/lib/dft/numint_uniform_grid.c\<close>.

  Conventions of the embedding.
  \<^item> In the integration routines a C \<^verbatim>\<open>double\<close> is a \<^typ>\<open>real\<close>: arithmetic is exact,
    there is no rounding, no infinity and no NaN. Where the C code depends on an infinity
    (the logarithm of zero) the branch taken by the C code is written out.
  \<^item> The two computations whose properties bear on rounding, on overflow and on the
    conversion of a \<^verbatim>\<open>double\<close> to an \<^verbatim>\<open>int\<close>, namely \<^verbatim>\<open>gto_rcut\<close> and the image range and
    grid slice of \<^verbatim>\<open>_cartesian_components\<close>, are embedded a second time over IEEE 754
    binary64 values and 32-bit integers (the definitions named \<open>..._b64\<close>).
  \<^item> A C \<^verbatim>\<open>int\<close> or \<^verbatim>\<open>size_t\<close> is an \<^typ>\<open>int\<close>; the quantities involved (angular
    momenta, contraction and primitive counts, mesh sizes, buffer offsets) are far from
    the machine limits. The C operators \<^verbatim>\<open>/\<close> and \<^verbatim>\<open>%\<close> on integers truncate towards zero
    and are \<^const>\<open>signed_divide\<close> and \<^const>\<open>signed_modulo\<close>.
  \<^item> All \<^verbatim>\<open>double *\<close> arguments point into one store, a map from addresses to values;
    a pointer is an address and pointer arithmetic is integer arithmetic.
\<close>

type_synonym ptr = int
type_synonym mem = "int \<Rightarrow> real"

subsection \<open>Constants and tables\<close>

definition PLAIN :: int where "PLAIN = 0"
definition HERMITIAN :: int where "HERMITIAN = 1"
definition ANTIHERMI :: int where "ANTIHERMI = 2"
definition SYMMETRIC :: int where "SYMMETRIC = 3"
definition OF_CMPLX :: int where "OF_CMPLX = 2"
definition EXPCUTOFF15 :: real where "EXPCUTOFF15 = 40"

definition LEN_CART_tab :: "int list" where
  "LEN_CART_tab = [1, 3, 6, 10, 15, 21, 28, 36, 45, 55, 66, 78, 91, 105, 120, 136]"

definition CUM_LEN_CART_tab :: "int list" where
  "CUM_LEN_CART_tab =
     [1, 4, 10, 20, 35, 56, 84, 120, 165, 220, 286, 364, 455, 560, 680, 816]"

text \<open>Reading the tables at an index: the C code never checks the index, the tables
  have sixteen entries.\<close>

definition LEN_CART :: "int \<Rightarrow> int" where
  "LEN_CART l = LEN_CART_tab ! nat l"

definition CUM_LEN_CART :: "int \<Rightarrow> int" where
  "CUM_LEN_CART l = CUM_LEN_CART_tab ! nat l"

subsection \<open>Outcome of a call\<close>

text \<open>A call either returns, with the store it leaves, or ends the process through
  \<^verbatim>\<open>exit\<close>: then the outcome holds the exit status, the text written to
  \<^verbatim>\<open>stderr\<close> and the store at that moment.\<close>

datatype outcome = Returns mem | Exits int string mem

subsection \<open>Cutoff radius\<close>

text \<open>\<^verbatim>\<open>gto_rcut\<close>. The C code computes \<^verbatim>\<open>log(fabs(c))\<close>, which is minus infinity
  for \<^verbatim>\<open>c == 0\<close>; \<^verbatim>\<open>prod\<close> is then minus infinity, the test \<^verbatim>\<open>prod > 0\<close> fails and the
  function returns 0. The angular momentum \<open>l\<close> is only used by the code that is
  commented out in the source. This is the function in exact arithmetic;
  \<open>gto_rcut_b64\<close> below is the function over binary64 values.\<close>

definition gto_rcut :: "real \<Rightarrow> int \<Rightarrow> real \<Rightarrow> real \<Rightarrow> real" where
  "gto_rcut alpha l c log_prec =
     (let log_prec1 = log_prec - 7 in
      if c = 0 then 0
      else
        let log_c = ln \<bar>c\<bar>;
            prod0 = (0::real);
            prod1 = prod0 + (log_c - log_prec1)
        in if prod1 > 0 then sqrt (prod1 / alpha) else 0)"

subsection \<open>Image range and grid slice of one axis\<close>

text \<open>The casts \<^verbatim>\<open>(int)floor(x)\<close>, \<^verbatim>\<open>(int)ceil(x)\<close> are \<^const>\<open>floor\<close> and
  \<^const>\<open>ceiling\<close>; the cast \<^verbatim>\<open>(int)x\<close> truncates towards zero.\<close>

definition c_trunc :: "real \<Rightarrow> int" where
  "c_trunc x = (if 0 \<le> x then \<lfloor>x\<rfloor> else \<lceil>x\<rceil>)"

text \<open>The first part of \<^verbatim>\<open>_cartesian_components\<close> (the lines that fill
  \<^verbatim>\<open>img_slice\<close> and \<^verbatim>\<open>grid_slice\<close>): the result is
  \<open>((nimg0, nimg1), (nx0, nx1))\<close>. This is the computation in exact arithmetic;
  \<open>cartesian_components_slices_b64\<close> below is the computation over binary64 values and
  32-bit integers.\<close>

definition cartesian_components_slices ::
  "bool \<Rightarrow> int \<Rightarrow> real \<Rightarrow> real \<Rightarrow> real \<Rightarrow> (int \<times> int) \<times> (int \<times> int)" where
  "cartesian_components_slices periodic nx_per_cell x_frac cutoff heights_inv =
     (let edge0 = x_frac - cutoff * heights_inv;
          edge1 = x_frac + cutoff * heights_inv;
          nimg0 = (if periodic then \<lfloor>edge0\<rfloor> else 0);
          nimg1 = (if periodic then \<lceil>edge1\<rceil> else 1);
          nx0 = \<lfloor>edge0 * of_int nx_per_cell\<rfloor>;
          nx1 = \<lceil>edge1 * of_int nx_per_cell\<rceil>;
          nx0' = (if periodic then (nx0 + nimg1 * nx_per_cell) smod nx_per_cell
                  else max (min nx0 nx_per_cell) 0);
          nx1' = (if periodic then (nx1 + nimg1 * nx_per_cell) smod nx_per_cell
                  else max (min nx1 nx_per_cell) 0)
      in ((nimg0, nimg1), (nx0', nx1')))"

definition img_count :: "(int \<times> int) \<times> (int \<times> int) \<Rightarrow> int" where
  "img_count s = snd (fst s) - fst (fst s)"

subsection \<open>Binary64 arithmetic\<close>

text \<open>A C \<^verbatim>\<open>double\<close> as the machine has it: an IEEE 754 binary64 value, that is a finite
  number, a negative zero, an infinity or a NaN. \<open>Fin 0\<close> is the positive zero. Every
  arithmetic operation computes the exact result and rounds it once, to the nearest
  binary64 value, ties to the even significand (the default rounding mode, each
  operation evaluated in binary64). The type has more finite values than binary64 has:
  \<open>is_b64\<close> holds of those that are binary64 values, and every operation returns one.\<close>

datatype b64 = Fin real | NZero | PInf | MInf | NaN

text \<open>Rounding of a real to the nearest integer, ties to even.\<close>

definition rne :: "real \<Rightarrow> int" where
  "rne x =
     (let f = \<lfloor>x\<rfloor>;
          d = x - of_int f
      in if d < 1/2 then f else if 1/2 < d then f + 1 else if even f then f else f + 1)"

text \<open>Rounding of a real to binary64. The exponent \<open>e\<close> of a normal number \<open>x\<close> has
  \<open>2^e \<le> |x| < 2^(e+1)\<close>; below \<open>2^-1022\<close> (subnormal numbers) it stays at \<open>-1022\<close>. The
  significand has 53 bits, so the values near \<open>x\<close> are the multiples of \<open>q = 2^(e-52)\<close>.
  A result of magnitude \<open>2^1024\<close> or more overflows to an infinity; a nonzero negative
  number that rounds to zero gives the negative zero.\<close>

definition b64_round :: "real \<Rightarrow> b64" where
  "b64_round x =
     (if x = 0 then Fin 0
      else
        let e = max \<lfloor>log 2 \<bar>x\<bar>\<rfloor> (- 1022);
            q = 2 powr of_int (e - 52);
            v = of_int (rne (x / q)) * q
        in if 2 powr 1024 \<le> \<bar>v\<bar> then (if 0 < x then PInf else MInf)
           else if v = 0 \<and> x < 0 then NZero
           else Fin v)"

definition is_b64 :: "b64 \<Rightarrow> bool" where
  "is_b64 a = (case a of Fin v \<Rightarrow> b64_round v = Fin v | _ \<Rightarrow> True)"

definition b64_val :: "b64 \<Rightarrow> real" where
  "b64_val a = (case a of Fin v \<Rightarrow> v | _ \<Rightarrow> 0)"

definition b64_signbit :: "b64 \<Rightarrow> bool" where
  "b64_signbit a =
     (case a of Fin v \<Rightarrow> v < 0 | NZero \<Rightarrow> True | MInf \<Rightarrow> True | _ \<Rightarrow> False)"

definition b64_finite :: "b64 \<Rightarrow> bool" where
  "b64_finite a = (case a of Fin v \<Rightarrow> True | NZero \<Rightarrow> True | _ \<Rightarrow> False)"

definition b64_inf :: "bool \<Rightarrow> b64" where
  "b64_inf negative = (if negative then MInf else PInf)"

definition b64_zero :: "bool \<Rightarrow> b64" where
  "b64_zero negative = (if negative then NZero else Fin 0)"

definition b64_neg :: "b64 \<Rightarrow> b64" where
  "b64_neg a =
     (case a of Fin v \<Rightarrow> if v = 0 then NZero else Fin (- v) | NZero \<Rightarrow> Fin 0
      | PInf \<Rightarrow> MInf | MInf \<Rightarrow> PInf | NaN \<Rightarrow> NaN)"

text \<open>\<^verbatim>\<open>a + b\<close>. Infinities of opposite sign give a NaN; an exact sum of zero is the
  positive zero unless both operands are negative zeros.\<close>

definition b64_add :: "b64 \<Rightarrow> b64 \<Rightarrow> b64" where
  "b64_add a b =
     (if a = NaN \<or> b = NaN then NaN
      else if \<not> b64_finite a then (if \<not> b64_finite b \<and> a \<noteq> b then NaN else a)
      else if \<not> b64_finite b then b
      else if b64_val a + b64_val b = 0 then b64_zero (b64_signbit a \<and> b64_signbit b)
      else b64_round (b64_val a + b64_val b))"

text \<open>\<^verbatim>\<open>a - b\<close> is \<^verbatim>\<open>a + (-b)\<close>.\<close>

definition b64_sub :: "b64 \<Rightarrow> b64 \<Rightarrow> b64" where
  "b64_sub a b = b64_add a (b64_neg b)"

text \<open>\<^verbatim>\<open>a * b\<close>. Zero times infinity is a NaN; the sign of a zero or infinite result is
  the exclusive or of the operands' signs.\<close>

definition b64_mul :: "b64 \<Rightarrow> b64 \<Rightarrow> b64" where
  "b64_mul a b =
     (if a = NaN \<or> b = NaN then NaN
      else if \<not> b64_finite a \<or> \<not> b64_finite b then
        (if (b64_finite a \<and> b64_val a = 0) \<or> (b64_finite b \<and> b64_val b = 0) then NaN
         else b64_inf (b64_signbit a \<noteq> b64_signbit b))
      else if b64_val a * b64_val b = 0 then b64_zero (b64_signbit a \<noteq> b64_signbit b)
      else b64_round (b64_val a * b64_val b))"

text \<open>\<^verbatim>\<open>a / b\<close>. Infinity over infinity and zero over zero are NaN; a nonzero number over
  zero is an infinity, a finite number over an infinity is a zero.\<close>

definition b64_div :: "b64 \<Rightarrow> b64 \<Rightarrow> b64" where
  "b64_div a b =
     (if a = NaN \<or> b = NaN then NaN
      else if \<not> b64_finite a then
        (if \<not> b64_finite b then NaN else b64_inf (b64_signbit a \<noteq> b64_signbit b))
      else if \<not> b64_finite b then b64_zero (b64_signbit a \<noteq> b64_signbit b)
      else if b64_val b = 0 then
        (if b64_val a = 0 then NaN else b64_inf (b64_signbit a \<noteq> b64_signbit b))
      else if b64_val a = 0 then b64_zero (b64_signbit a \<noteq> b64_signbit b)
      else b64_round (b64_val a / b64_val b))"

text \<open>\<^verbatim>\<open>sqrt\<close> is correctly rounded; of a negative number it is a NaN.\<close>

definition b64_sqrt :: "b64 \<Rightarrow> b64" where
  "b64_sqrt a =
     (case a of Fin v \<Rightarrow> if v < 0 then NaN else b64_round (sqrt v) | NZero \<Rightarrow> NZero
      | PInf \<Rightarrow> PInf | MInf \<Rightarrow> NaN | NaN \<Rightarrow> NaN)"

definition b64_fabs :: "b64 \<Rightarrow> b64" where
  "b64_fabs a =
     (case a of Fin v \<Rightarrow> Fin \<bar>v\<bar> | NZero \<Rightarrow> Fin 0 | PInf \<Rightarrow> PInf | MInf \<Rightarrow> PInf
      | NaN \<Rightarrow> NaN)"

text \<open>\<^verbatim>\<open>log\<close> of the C library: minus infinity at a zero, a NaN below zero, the positive
  zero at 1. The library does not promise the nearest binary64 value elsewhere; this
  function returns it, and \<^verbatim>\<open>gto_rcut\<close> below takes its logarithm as a parameter.\<close>

definition b64_log :: "b64 \<Rightarrow> b64" where
  "b64_log a =
     (case a of Fin v \<Rightarrow> if v < 0 then NaN else if v = 0 then MInf else b64_round (ln v)
      | NZero \<Rightarrow> MInf | PInf \<Rightarrow> PInf | MInf \<Rightarrow> NaN | NaN \<Rightarrow> NaN)"

text \<open>\<^verbatim>\<open>a > b\<close>: false when an operand is a NaN; the two zeros compare equal.\<close>

definition b64_gt :: "b64 \<Rightarrow> b64 \<Rightarrow> bool" where
  "b64_gt a b =
     (a \<noteq> NaN \<and> b \<noteq> NaN \<and>
      (if a = PInf then b \<noteq> PInf
       else if a = MInf then False
       else if b = PInf then False
       else if b = MInf then True
       else b64_val b < b64_val a))"

definition b64_floor :: "b64 \<Rightarrow> b64" where
  "b64_floor a = (case a of Fin v \<Rightarrow> Fin (of_int \<lfloor>v\<rfloor>) | _ \<Rightarrow> a)"

definition b64_ceil :: "b64 \<Rightarrow> b64" where
  "b64_ceil a =
     (case a of Fin v \<Rightarrow> if v < 0 \<and> \<lceil>v\<rceil> = 0 then NZero else Fin (of_int \<lceil>v\<rceil>)
      | _ \<Rightarrow> a)"

text \<open>The smallest positive normal \<^verbatim>\<open>double\<close>.\<close>

definition DBL_MIN :: real where
  "DBL_MIN = 1 / 2 ^ 1022"

subsection \<open>32-bit integers\<close>

text \<open>A C \<^verbatim>\<open>int\<close> has 32 bits. An operation whose result is not an \<^verbatim>\<open>int\<close> has undefined
  behaviour, which is the value \<open>None\<close>: signed overflow, a remainder by zero or with a
  quotient out of range, and the conversion of a \<^verbatim>\<open>double\<close> that is a NaN, an infinity or,
  once truncated, out of range. The conversion of an \<^verbatim>\<open>int\<close> to a \<^verbatim>\<open>double\<close> rounds,
  and is exact on the 32-bit integers, which are all binary64 values.\<close>

definition INT_MIN :: int where
  "INT_MIN = - (2 ^ 31)"

definition INT_MAX :: int where
  "INT_MAX = 2 ^ 31 - 1"

definition i32 :: "int \<Rightarrow> int option" where
  "i32 n = (if INT_MIN \<le> n \<and> n \<le> INT_MAX then Some n else None)"

definition i32_add :: "int \<Rightarrow> int \<Rightarrow> int option" where
  "i32_add a b = i32 (a + b)"

definition i32_sub :: "int \<Rightarrow> int \<Rightarrow> int option" where
  "i32_sub a b = i32 (a - b)"

definition i32_mul :: "int \<Rightarrow> int \<Rightarrow> int option" where
  "i32_mul a b = i32 (a * b)"

definition i32_mod :: "int \<Rightarrow> int \<Rightarrow> int option" where
  "i32_mod a b =
     (if b = 0 then None
      else case i32 (a sdiv b) of None \<Rightarrow> None | Some q \<Rightarrow> Some (a smod b))"

definition b64_of_int :: "int \<Rightarrow> b64" where
  "b64_of_int n = b64_round (of_int n)"

definition b64_to_int :: "b64 \<Rightarrow> int option" where
  "b64_to_int a =
     (case a of Fin v \<Rightarrow> i32 (c_trunc v) | NZero \<Rightarrow> Some 0 | _ \<Rightarrow> None)"

subsection \<open>Cutoff radius over binary64\<close>

text \<open>\<^verbatim>\<open>gto_rcut\<close>, statement by statement. \<open>gto_rcut_prod\<close> is the value of \<^verbatim>\<open>prod\<close> that
  the test \<^verbatim>\<open>prod > 0\<close> reads: \<^verbatim>\<open>log_prec -= 7\<close>, \<^verbatim>\<open>log_c = log(fabs(c))\<close>, \<^verbatim>\<open>prod = 0\<close>,
  \<^verbatim>\<open>prod += log_c - log_prec\<close>. The logarithm of the C library is the parameter
  \<open>libm_log\<close>.\<close>

definition gto_rcut_prod :: "(b64 \<Rightarrow> b64) \<Rightarrow> b64 \<Rightarrow> b64 \<Rightarrow> b64" where
  "gto_rcut_prod libm_log c log_prec =
     (let log_prec1 = b64_sub log_prec (Fin 7);
          log_c = libm_log (b64_fabs c);
          prod0 = Fin 0
      in b64_add prod0 (b64_sub log_c log_prec1))"

definition gto_rcut_b64 :: "(b64 \<Rightarrow> b64) \<Rightarrow> b64 \<Rightarrow> int \<Rightarrow> b64 \<Rightarrow> b64 \<Rightarrow> b64" where
  "gto_rcut_b64 libm_log alpha l c log_prec =
     (let prod1 = gto_rcut_prod libm_log c log_prec
      in if b64_gt prod1 (Fin 0) then b64_sqrt (b64_div prod1 alpha) else Fin 0)"

subsection \<open>Image range and grid slice over binary64\<close>

text \<open>The two edges of \<^verbatim>\<open>_cartesian_components\<close>: the product is rounded, then the
  difference or the sum.\<close>

definition edge0_b64 :: "b64 \<Rightarrow> b64 \<Rightarrow> b64 \<Rightarrow> b64" where
  "edge0_b64 x_frac cutoff heights_inv = b64_sub x_frac (b64_mul cutoff heights_inv)"

definition edge1_b64 :: "b64 \<Rightarrow> b64 \<Rightarrow> b64 \<Rightarrow> b64" where
  "edge1_b64 x_frac cutoff heights_inv = b64_add x_frac (b64_mul cutoff heights_inv)"

text \<open>The step that brings a grid index into the unit cell:
  \<^verbatim>\<open>(nx + nimg1 * nx_per_cell) % nx_per_cell\<close> with periodicity, the clamp to
  \<open>[0, nx_per_cell]\<close> without.\<close>

definition grid_in_cell :: "bool \<Rightarrow> int \<Rightarrow> int \<Rightarrow> int \<Rightarrow> int option" where
  "grid_in_cell periodic nx_per_cell nimg1 nx =
     (if periodic then
        Option.bind (i32_mul nimg1 nx_per_cell) (\<lambda>t.
        Option.bind (i32_add nx t) (\<lambda>u. i32_mod u nx_per_cell))
      else Some (max (min nx nx_per_cell) 0))"

text \<open>The lines of \<^verbatim>\<open>_cartesian_components\<close> that fill \<^verbatim>\<open>img_slice\<close> and \<^verbatim>\<open>grid_slice\<close>:
  the result is \<open>((nimg0, nimg1), (nx0, nx1))\<close>, or \<open>None\<close> when one of the integer
  operations is undefined.\<close>

definition cartesian_components_slices_b64 ::
  "bool \<Rightarrow> int \<Rightarrow> b64 \<Rightarrow> b64 \<Rightarrow> b64 \<Rightarrow> ((int \<times> int) \<times> (int \<times> int)) option" where
  "cartesian_components_slices_b64 periodic nx_per_cell x_frac cutoff heights_inv =
     (let edge0 = edge0_b64 x_frac cutoff heights_inv;
          edge1 = edge1_b64 x_frac cutoff heights_inv
      in
        Option.bind (if periodic then b64_to_int (b64_floor edge0) else Some 0) (\<lambda>nimg0.
        Option.bind (if periodic then b64_to_int (b64_ceil edge1) else Some 1) (\<lambda>nimg1.
        Option.bind (b64_to_int (b64_floor (b64_mul edge0 (b64_of_int nx_per_cell))))
          (\<lambda>nx0.
        Option.bind (b64_to_int (b64_ceil (b64_mul edge1 (b64_of_int nx_per_cell))))
          (\<lambda>nx1.
        Option.bind (grid_in_cell periodic nx_per_cell nimg1 nx0) (\<lambda>nx0'.
        Option.bind (grid_in_cell periodic nx_per_cell nimg1 nx1) (\<lambda>nx1'.
        Some ((nimg0, nimg1), (nx0', nx1')))))))))"

text \<open>The image count \<^verbatim>\<open>nimg = nimg1 - nimg0\<close>.\<close>

definition cartesian_components_nimg_b64 ::
  "bool \<Rightarrow> int \<Rightarrow> b64 \<Rightarrow> b64 \<Rightarrow> b64 \<Rightarrow> int option" where
  "cartesian_components_nimg_b64 periodic nx_per_cell x_frac cutoff heights_inv =
     Option.bind (cartesian_components_slices_b64 periodic nx_per_cell x_frac cutoff
        heights_inv) (\<lambda>s. i32_sub (snd (fst s)) (fst (fst s)))"

subsection \<open>The non-orthogonal variant\<close>

text \<open>\<^verbatim>\<open>GTOnumint_3d_nonorth\<close> prints one line on \<^verbatim>\<open>stderr\<close> and calls
  \<^verbatim>\<open>exit(1)\<close>, whatever its arguments.\<close>

definition GTOnumint_3d_nonorth ::
  "ptr \<Rightarrow> int \<Rightarrow> int \<Rightarrow> real \<Rightarrow> real \<Rightarrow> real \<Rightarrow> real \<Rightarrow> int \<Rightarrow> real list \<Rightarrow> real list \<Rightarrow>
   int list \<Rightarrow> ptr \<Rightarrow> ptr \<Rightarrow> mem \<Rightarrow> outcome" where
  "GTOnumint_3d_nonorth out floorl topl ai aj fac log_prec dimension a b mesh weights
       cache m =
     Exits 1 (''GTOnumint_3d_nonorth not available'' @ [CHR 0x0A]) m"

subsection \<open>Dense matrix product\<close>

text \<open>Modelled from the spec: \<^verbatim>\<open>dgemm_\<close> is the matrix-multiply primitive of the external
  linear-algebra library (declared in \<^verbatim>\<open>vhf/fblas.h\<close>), not among the sources. Every
  call in the source passes \<^verbatim>\<open>'N'\<close>, \<^verbatim>\<open>'N'\<close>, so the model is the dense product without
  transposition on column-major operands:
  \<open>C[i + j*ldc] := alpha * (\<Sum>k<K. A[i + k*lda] * B[k + j*ldb]) + beta * C[i + j*ldc]\<close>
  for \<open>i < M\<close> and \<open>j < N\<close>. The operands are read from the store at the call. A negative
  dimension is rejected and the store is left as it is.\<close>

definition dgemm_NN ::
  "int \<Rightarrow> int \<Rightarrow> int \<Rightarrow> real \<Rightarrow> ptr \<Rightarrow> int \<Rightarrow> ptr \<Rightarrow> int \<Rightarrow> real \<Rightarrow> ptr \<Rightarrow> int \<Rightarrow> mem \<Rightarrow> mem" where
  "dgemm_NN M N K alpha A lda B ldb beta C ldc m =
     (if M < 0 \<or> N < 0 \<or> K < 0 then m
      else
        fold (\<lambda>j. fold (\<lambda>i m'.
                m'(C + i + j * ldc :=
                     alpha * (\<Sum>k\<leftarrow>[0..K - 1]. m (A + i + k * lda) * m (B + k + j * ldb))
                     + beta * m (C + i + j * ldc)))
              [0..M - 1])
          [0..N - 1] m)"

subsection \<open>One axis: exponential values and powers\<close>

text \<open>\<^verbatim>\<open>_cartesian_components\<close>. The argument \<open>a\<close> is the value \<^verbatim>\<open>*a\<close> the C code reads
  through its pointer. The result is the pair of slices and the store.\<close>

definition cartesian_components ::
  "ptr \<Rightarrow> real \<Rightarrow> real \<Rightarrow> real \<Rightarrow> real \<Rightarrow> bool \<Rightarrow> int \<Rightarrow> int \<Rightarrow> real \<Rightarrow> real \<Rightarrow> real \<Rightarrow> ptr \<Rightarrow>
   mem \<Rightarrow> ((int \<times> int) \<times> (int \<times> int)) \<times> mem" where
  "cartesian_components xs_exp a xi xij aij periodic nx_per_cell topl x_frac cutoff
       heights_inv cache m =
     (let slices = cartesian_components_slices periodic nx_per_cell x_frac cutoff
                     heights_inv;
          nimg0 = fst (fst slices);
          nimg1 = snd (fst slices);
          nimg = nimg1 - nimg0;
          nmx = nimg * nx_per_cell;
          gridx = cache;
          xs_all = (if \<not> periodic then xs_exp else cache + nimg * nx_per_cell);
          grid_close_to_xij = c_trunc (x_frac * of_int nx_per_cell);
          img0_x = a * of_int nimg0;
          dx = a / of_int nx_per_cell;
          base_x = img0_x + dx * of_int grid_close_to_xij;
          x0xij = base_x - xij;
          exp_dxdx = exp (- aij * dx * dx);
          exp_2dxdx = exp_dxdx * exp_dxdx;
          m1 = m(xs_all + grid_close_to_xij := exp (- aij * x0xij * x0xij));
          m2 = snd (fold (\<lambda>i (exp_x0, m').
                       (exp_x0 * exp_2dxdx, m'(xs_all + i := m' (xs_all + i - 1) * exp_x0)))
                  [grid_close_to_xij + 1..nmx - 1]
                  (exp (- 2 * aij * x0xij * dx) * exp_dxdx, m1));
          m3 = snd (fold (\<lambda>i (exp_x0, m').
                       (exp_x0 * exp_2dxdx, m'(xs_all + i := m' (xs_all + i + 1) * exp_x0)))
                  (rev [0..grid_close_to_xij - 1])
                  (exp (2 * aij * x0xij * dx) * exp_dxdx, m2));
          m4 = (if 0 < topl then
                  let x0xi = img0_x - xi;
                      m' = fold (\<lambda>i m'. m'(gridx + i := x0xi + of_int i * dx))
                             [0..nmx - 1] m3
                  in fold (\<lambda>l. let px0 = xs_all + (l - 1) * nmx in
                             fold (\<lambda>i m''. m''(px0 + nmx + i := m'' (px0 + i) * m'' (gridx + i)))
                               [0..nmx - 1])
                       [1..topl] m'
                else m3);
          m5 = (if periodic then
                  fold (\<lambda>l m'.
                      let px0 = xs_all + l * nmx;
                          m'' = fold (\<lambda>i mm. mm(xs_exp + i := mm (px0 + i)))
                                  [0..nx_per_cell - 1] m'
                      in fold (\<lambda>k. let px0 = xs_all + l * nmx + k * nx_per_cell in
                                 fold (\<lambda>i mm. mm(xs_exp + l * nx_per_cell + i :=
                                                   mm (xs_exp + l * nx_per_cell + i) + mm (px0 + i)))
                                   [0..nx_per_cell - 1])
                           [1..nimg - 1] m'')
                    [0..topl] m4
                else m4)
      in (slices, m5))"

definition has_overlap :: "int \<Rightarrow> int \<Rightarrow> int \<Rightarrow> bool" where
  "has_overlap nx0 nx1 nx_per_cell = (nx0 < nx1)"

subsection \<open>The three contractions of \<^verbatim>\<open>GTOnumint_3d_orth\<close>\<close>

text \<open>Contraction of the x axis of the weight field into \<^verbatim>\<open>weightyz\<close>.\<close>

definition orth_x_stage ::
  "int \<Rightarrow> real \<Rightarrow> int list \<Rightarrow> int \<Rightarrow> int \<Rightarrow> int \<Rightarrow> ptr \<Rightarrow> ptr \<Rightarrow> ptr \<Rightarrow> mem \<Rightarrow> mem" where
  "orth_x_stage topl fac mesh nimgx nx0 nx1 weights xs_exp weightyz m =
     (let l1 = topl + 1;
          xcols = mesh ! 1 * mesh ! 2
      in if nimgx = 1 then
           let ngridx = nx1 - nx0
           in dgemm_NN xcols l1 ngridx fac (weights + nx0 * xcols) xcols
                (xs_exp + nx0) (mesh ! 0) 0 weightyz xcols m
         else if nimgx = 2 \<and> \<not> has_overlap nx0 nx1 (mesh ! 0) then
           let m1 = dgemm_NN xcols l1 nx1 fac weights xcols xs_exp (mesh ! 0)
                      0 weightyz xcols m;
               ngridx = mesh ! 0 - nx0
           in dgemm_NN xcols l1 ngridx fac (weights + nx0 * xcols) xcols
                (xs_exp + nx0) (mesh ! 0) 1 weightyz xcols m1
         else
           dgemm_NN xcols l1 (mesh ! 0) fac weights xcols xs_exp (mesh ! 0)
             0 weightyz xcols m)"

text \<open>Contraction of the y axis of \<^verbatim>\<open>weightyz\<close> into \<^verbatim>\<open>weightz\<close>, once per x power.\<close>

definition orth_y_stage ::
  "int \<Rightarrow> int list \<Rightarrow> int \<Rightarrow> int \<Rightarrow> int \<Rightarrow> ptr \<Rightarrow> ptr \<Rightarrow> ptr \<Rightarrow> mem \<Rightarrow> mem" where
  "orth_y_stage topl mesh nimgy ny0 ny1 ys_exp weightyz weightz m =
     (let l1 = topl + 1;
          xcols = mesh ! 1 * mesh ! 2;
          ycols = mesh ! 2
      in if nimgy = 1 then
           let ngridy = ny1 - ny0
           in fold (\<lambda>lx. dgemm_NN ycols l1 ngridy 1
                            (weightyz + lx * xcols + ny0 * ycols) ycols
                            (ys_exp + ny0) (mesh ! 1) 0 (weightz + lx * l1 * ycols) ycols)
                [0..topl] m
         else if nimgy = 2 \<and> \<not> has_overlap ny0 ny1 (mesh ! 1) then
           let ngridy = mesh ! 1 - ny0
           in fold (\<lambda>lx m'.
                      dgemm_NN ycols l1 ngridy 1
                        (weightyz + lx * xcols + ny0 * ycols) ycols
                        (ys_exp + ny0) (mesh ! 1) 1 (weightz + lx * l1 * ycols) ycols
                        (dgemm_NN ycols l1 ny1 1 (weightyz + lx * xcols) ycols
                           ys_exp (mesh ! 1) 0 (weightz + lx * l1 * ycols) ycols m'))
                [0..topl] m
         else
           fold (\<lambda>lx. dgemm_NN ycols l1 (mesh ! 1) 1 (weightyz + lx * xcols) ycols
                         (ys_exp + ny0) (mesh ! 1) 0 (weightz + lx * l1 * ycols) ycols)
             [0..topl] m)"

text \<open>The z axis. The innermost loop of both branches is a dot product over a range
  of grid points; the branches differ in the range only.\<close>

definition orth_z_val ::
  "int list \<Rightarrow> int \<Rightarrow> ptr \<Rightarrow> ptr \<Rightarrow> int \<Rightarrow> int \<Rightarrow> int \<Rightarrow> int \<Rightarrow> int \<Rightarrow> mem \<Rightarrow> real" where
  "orth_z_val mesh l1 zs_exp weightz i0 i1 lx ly lz m =
     (let pz = zs_exp + lz * mesh ! 2;
          pweightz = weightz + (lx * l1 + ly) * mesh ! 2
      in fold (\<lambda>i val. val + m (pweightz + i) * m (pz + i)) [i0..i1 - 1] 0)"

text \<open>The loop nest \<^verbatim>\<open>for (n = 0, l = floorl; l <= topl; l++)\<close>,
  \<^verbatim>\<open>for (lx = l; lx >= 0; lx--)\<close>, \<^verbatim>\<open>for (ly = l - lx; ly >= 0; ly--, n++)\<close>, with the
  counters of the C code. The loop state is the counter \<open>n\<close> and a state \<open>s\<close> that the
  loop body \<open>body n lx ly lz\<close> transforms.\<close>

function orth_z_ly_loop ::
  "(int \<Rightarrow> int \<Rightarrow> int \<Rightarrow> int \<Rightarrow> 's \<Rightarrow> 's) \<Rightarrow> int \<Rightarrow> int \<Rightarrow> int \<Rightarrow> int \<times> 's \<Rightarrow> int \<times> 's" where
  "orth_z_ly_loop body l lx ly (n, s) =
     (if 0 \<le> ly
      then orth_z_ly_loop body l lx (ly - 1) (n + 1, body n lx ly (l - lx - ly) s)
      else (n, s))"
  by pat_completeness auto
termination
  by (relation "measure (\<lambda>(body, l, lx, ly, st). nat (ly + 1))") auto

function orth_z_lx_loop ::
  "(int \<Rightarrow> int \<Rightarrow> int \<Rightarrow> int \<Rightarrow> 's \<Rightarrow> 's) \<Rightarrow> int \<Rightarrow> int \<Rightarrow> int \<times> 's \<Rightarrow> int \<times> 's" where
  "orth_z_lx_loop body l lx st =
     (if 0 \<le> lx
      then orth_z_lx_loop body l (lx - 1) (orth_z_ly_loop body l lx (l - lx) st)
      else st)"
  by pat_completeness auto
termination
  by (relation "measure (\<lambda>(body, l, lx, st). nat (lx + 1))") auto

function orth_z_l_loop ::
  "(int \<Rightarrow> int \<Rightarrow> int \<Rightarrow> int \<Rightarrow> 's \<Rightarrow> 's) \<Rightarrow> int \<Rightarrow> int \<Rightarrow> int \<times> 's \<Rightarrow> int \<times> 's" where
  "orth_z_l_loop body l topl st =
     (if l \<le> topl
      then orth_z_l_loop body (l + 1) topl (orth_z_lx_loop body l l st)
      else st)"
  by pat_completeness auto
termination
  by (relation "measure (\<lambda>(body, l, topl, st). nat (topl + 1 - l))") auto

text \<open>The statement \<^verbatim>\<open>out[n] = val\<close> with the dot product of its branch.\<close>

definition orth_z_store ::
  "ptr \<Rightarrow> int list \<Rightarrow> int \<Rightarrow> int \<Rightarrow> int \<Rightarrow> int \<Rightarrow> ptr \<Rightarrow> ptr \<Rightarrow>
   int \<Rightarrow> int \<Rightarrow> int \<Rightarrow> int \<Rightarrow> mem \<Rightarrow> mem" where
  "orth_z_store out mesh l1 nimgz nz0 nz1 zs_exp weightz n lx ly lz m =
     (if nimgz = 1
      then m(out + n := orth_z_val mesh l1 zs_exp weightz nz0 nz1 lx ly lz m)
      else m(out + n := orth_z_val mesh l1 zs_exp weightz 0 (mesh ! 2) lx ly lz m))"

text \<open>The z stage returns the final value of the counter \<open>n\<close>, the number of stores to
  \<^verbatim>\<open>out\<close>, with the store.\<close>

definition orth_z_stage ::
  "ptr \<Rightarrow> int \<Rightarrow> int \<Rightarrow> int list \<Rightarrow> int \<Rightarrow> int \<Rightarrow> int \<Rightarrow> ptr \<Rightarrow> ptr \<Rightarrow> mem \<Rightarrow> int \<times> mem" where
  "orth_z_stage out floorl topl mesh nimgz nz0 nz1 zs_exp weightz m =
     orth_z_l_loop (orth_z_store out mesh (topl + 1) nimgz nz0 nz1 zs_exp weightz)
       floorl topl (0, m)"

subsection \<open>Shell-pair environment\<close>

text \<open>The fields of \<^verbatim>\<open>CINTEnvVars\<close> that the source reads. The macro
  \<^verbatim>\<open>bas(SLOT, I)\<close> of the external header is kept as a lookup by slot name and shell
  index, \<^verbatim>\<open>env\<close> is the read-only parameter array, \<^verbatim>\<open>ri\<close> and \<^verbatim>\<open>rj\<close> are the
  coordinates of the two centres.\<close>

datatype bas_slot = ATOM_OF | ANG_OF | NPRIM_OF | NCTR_OF | KAPPA_OF | PTR_EXP | PTR_COEFF

record CINTEnvVars =
  shls :: "int list"
  bas :: "bas_slot \<Rightarrow> int \<Rightarrow> int"
  env :: "int \<Rightarrow> real"
  i_l :: int
  j_l :: int
  nfi :: int
  nfj :: int
  nf :: int
  x_ctr :: "int list"
  ncomp_e1 :: int
  ncomp_tensor :: int
  ri :: "real list"
  rj :: "real list"

subsection \<open>\<^verbatim>\<open>GTOnumint_3d_orth\<close>\<close>

text \<open>The sub-buffers that \<^verbatim>\<open>GTOnumint_3d_orth\<close> carves out of its \<^verbatim>\<open>cache\<close> argument:
  \<open>(xs_exp, ys_exp, zs_exp, weightyz, weightz)\<close>. The scratch area handed to
  \<^verbatim>\<open>_cartesian_components\<close> starts where \<^verbatim>\<open>weightyz\<close> starts.\<close>

definition orth_layout :: "int \<Rightarrow> int list \<Rightarrow> ptr \<Rightarrow> ptr \<times> ptr \<times> ptr \<times> ptr \<times> ptr" where
  "orth_layout topl mesh cache =
     (let xs_exp = cache;
          ys_exp = xs_exp + (topl + 1) * mesh ! 0;
          zs_exp = ys_exp + (topl + 1) * mesh ! 1;
          cache1 = zs_exp + (topl + 1) * mesh ! 2;
          l1 = topl + 1;
          xcols = mesh ! 1 * mesh ! 2;
          weightyz = cache1;
          weightz = weightyz + l1 * xcols
      in (xs_exp, ys_exp, zs_exp, weightyz, weightz))"

definition GTOnumint_3d_orth ::
  "ptr \<Rightarrow> int \<Rightarrow> int \<Rightarrow> real \<Rightarrow> real \<Rightarrow> real \<Rightarrow> real \<Rightarrow> int \<Rightarrow> real list \<Rightarrow> real list \<Rightarrow>
   int list \<Rightarrow> ptr \<Rightarrow> CINTEnvVars \<Rightarrow> ptr \<Rightarrow> mem \<Rightarrow> mem" where
  "GTOnumint_3d_orth out floorl topl ai aj fac log_prec dimension a b mesh weights envs
       cache m =
     (let aij = ai + aj;
          rij0 = (ai * ri envs ! 0 + aj * rj envs ! 0) / aij;
          rij1 = (ai * ri envs ! 1 + aj * rj envs ! 1) / aij;
          rij2 = (ai * ri envs ! 2 + aj * rj envs ! 2) / aij;
          cutoff = gto_rcut aij topl fac log_prec;
          x_frac = rij0 * b ! 0;
          y_frac = rij1 * b ! 4;
          z_frac = rij2 * b ! 8;
          xheights_inv = b ! 0;
          yheights_inv = b ! 4;
          zheights_inv = b ! 8;
          (xs_exp, ys_exp, zs_exp, weightyz, weightz) = orth_layout topl mesh cache;
          cache1 = weightyz;
          (sx, m1) = cartesian_components xs_exp (a ! 0) (ri envs ! 0) rij0 aij
                       (1 \<le> dimension) (mesh ! 0) topl x_frac cutoff xheights_inv cache1 m;
          (sy, m2) = cartesian_components ys_exp (a ! 4) (ri envs ! 1) rij1 aij
                       (2 \<le> dimension) (mesh ! 1) topl y_frac cutoff yheights_inv cache1 m1;
          (sz, m3) = cartesian_components zs_exp (a ! 8) (ri envs ! 2) rij2 aij
                       (3 \<le> dimension) (mesh ! 2) topl z_frac cutoff zheights_inv cache1 m2;
          m4 = orth_x_stage topl fac mesh (img_count sx) (fst (snd sx)) (snd (snd sx))
                 weights xs_exp weightyz m3;
          m5 = orth_y_stage topl mesh (img_count sy) (fst (snd sy)) (snd (snd sy))
                 ys_exp weightyz weightz m4
      in snd (orth_z_stage out floorl topl mesh (img_count sz) (fst (snd sz))
                (snd (snd sz)) zs_exp weightz m5))"

subsection \<open>External functions\<close>

text \<open>The conversion routine is passed to the driver as a function pointer, which the
  driver compares with the address of \<^verbatim>\<open>c2s_sph_1e\<close>.\<close>

datatype c2s_fn = C2s_sph_1e | C2s_cart_1e | C2s_other nat

text \<open>Functions of the external integral library that the source calls and that are
  not among the sources; the model takes them as parameters: the squared distance of
  two points, the common factor of an angular momentum, the routine that moves angular
  momentum from one centre to the other (arguments: output, input, scratch,
  environment) and the routines behind the \<^verbatim>\<open>f_c2s\<close> pointer (arguments: output, input,
  \<^verbatim>\<open>dims\<close>, environment, scratch).\<close>

record externals =
  CINTsquare_dist :: "real list \<Rightarrow> real list \<Rightarrow> real"
  CINTcommon_fac_sp :: "int \<Rightarrow> real"
  GTOplain_vrr2d :: "ptr \<Rightarrow> ptr \<Rightarrow> ptr \<Rightarrow> CINTEnvVars \<Rightarrow> mem \<Rightarrow> mem"
  c2s_call :: "c2s_fn \<Rightarrow> ptr \<Rightarrow> ptr \<Rightarrow> int list \<Rightarrow> CINTEnvVars \<Rightarrow> ptr \<Rightarrow> mem \<Rightarrow> mem"

subsection \<open>Contraction over primitives\<close>

text \<open>\<^verbatim>\<open>plain_prim_to_ctr\<close>; \<open>coeff\<close> points into the parameter array \<open>penv\<close>, the flag
  \<open>empty_flag\<close> is the argument \<^verbatim>\<open>empty\<close>.\<close>

definition plain_prim_to_ctr ::
  "ptr \<Rightarrow> int \<Rightarrow> ptr \<Rightarrow> int \<Rightarrow> int \<Rightarrow> (int \<Rightarrow> real) \<Rightarrow> int \<Rightarrow> bool \<Rightarrow> mem \<Rightarrow> mem" where
  "plain_prim_to_ctr gc nfc gp nprim nctr penv coeff empty_flag m =
     (if empty_flag then
        fold (\<lambda>n m'. let c = penv (coeff + nprim * n) in
                fold (\<lambda>i m''. m''(gc + n * nfc + i := m'' (gp + i) * c)) [0..nfc - 1] m')
          [0..nctr - 1] m
      else
        fold (\<lambda>n m'. let c = penv (coeff + nprim * n) in
                if c \<noteq> 0 then
                  fold (\<lambda>i m''. m''(gc + n * nfc + i :=
                                      m'' (gc + n * nfc + i) + m'' (gp + i) * c))
                    [0..nfc - 1] m'
                else m')
          [0..nctr - 1] m)"

definition max_pgto_coeff :: "(int \<Rightarrow> real) \<Rightarrow> int \<Rightarrow> int \<Rightarrow> int \<Rightarrow> int \<Rightarrow> real" where
  "max_pgto_coeff penv coeff nprim nctr prim_id =
     fold (\<lambda>i maxc. max maxc \<bar>penv (coeff + i * nprim + prim_id)\<bar>) [0..nctr - 1] 0"

subsection \<open>\<^verbatim>\<open>GTOnumint1e_loop\<close>\<close>

text \<open>The sub-buffers that \<^verbatim>\<open>GTOnumint1e_loop\<close> carves out of its \<^verbatim>\<open>cache\<close> argument:
  \<open>(gctrj, gctri, g, log_iprim_max, log_jprim_max, cache')\<close>, the last one being the
  value of \<^verbatim>\<open>cache\<close> after \<^verbatim>\<open>cache += lenj + leni + len_g1d + i_prim + j_prim\<close>.\<close>

definition numint1e_len_g1d :: "CINTEnvVars \<Rightarrow> int" where
  "numint1e_len_g1d envs =
     (let offset_g1d = CUM_LEN_CART (i_l envs) - LEN_CART (i_l envs)
      in CUM_LEN_CART (i_l envs + j_l envs) - offset_g1d)"

definition numint1e_loop_layout ::
  "CINTEnvVars \<Rightarrow> ptr \<Rightarrow> ptr \<times> ptr \<times> ptr \<times> ptr \<times> ptr \<times> ptr" where
  "numint1e_loop_layout envs cache =
     (let i_sh = shls envs ! 0;
          j_sh = shls envs ! 1;
          i_ctr = x_ctr envs ! 0;
          j_ctr = x_ctr envs ! 1;
          i_prim = bas envs NPRIM_OF i_sh;
          j_prim = bas envs NPRIM_OF j_sh;
          len_g1d = numint1e_len_g1d envs;
          leni = len_g1d * i_ctr;
          lenj = len_g1d * i_ctr * j_ctr;
          gctrj = cache;
          gctri = gctrj + lenj;
          g = gctri + leni;
          log_iprim_max = g + len_g1d;
          log_jprim_max = log_iprim_max + i_prim
      in (gctrj, gctri, g, log_iprim_max, log_jprim_max,
          cache + (lenj + leni + len_g1d + i_prim + j_prim)))"

text \<open>The test before \<^verbatim>\<open>continue\<close>: the primitive pair \<open>(ip, jp)\<close> is skipped when
  \<open>eij - logcc > EXPCUTOFF15\<close>. The two logarithms are read from the tables in the
  store. A primitive whose coefficients are all zero has the logarithm minus infinity in
  C, so \<open>logcc\<close> is minus infinity and the test succeeds: this case is written out.\<close>

definition numint1e_pair_skipped ::
  "CINTEnvVars \<Rightarrow> real \<Rightarrow> ptr \<Rightarrow> ptr \<Rightarrow> mem \<Rightarrow> int \<Rightarrow> int \<Rightarrow> bool" where
  "numint1e_pair_skipped envs rrij log_iprim_max log_jprim_max m ip jp =
     (let i_sh = shls envs ! 0;
          j_sh = shls envs ! 1;
          ai = bas envs PTR_EXP i_sh;
          aj = bas envs PTR_EXP j_sh;
          ci = bas envs PTR_COEFF i_sh;
          cj = bas envs PTR_COEFF j_sh;
          aij = env envs (ai + ip) + env envs (aj + jp);
          eij = (env envs (ai + ip) * env envs (aj + jp) / aij) * rrij;
          logcc = m (log_iprim_max + ip) + m (log_jprim_max + jp)
      in max_pgto_coeff (env envs) ci (bas envs NPRIM_OF i_sh) (x_ctr envs ! 0) ip = 0
         \<or> max_pgto_coeff (env envs) cj (bas envs NPRIM_OF j_sh) (x_ctr envs ! 1) jp = 0
         \<or> eij - logcc > EXPCUTOFF15)"

text \<open>One iteration of the inner loop over \<open>ip\<close>; the state is the flag \<^verbatim>\<open>*iempty\<close> and
  the store.\<close>

definition numint1e_ip_step ::
  "real \<Rightarrow> real \<Rightarrow> int \<Rightarrow> real list \<Rightarrow> real list \<Rightarrow> int list \<Rightarrow> ptr \<Rightarrow> CINTEnvVars \<Rightarrow> ptr \<Rightarrow>
   real \<Rightarrow> int \<Rightarrow> int \<Rightarrow> bool \<times> mem \<Rightarrow> bool \<times> mem" where
  "numint1e_ip_step fac1 log_prec dimension a b mesh weights envs cache rrij jp ip st =
     (let (iempty, m) = st;
          (gctrj, gctri, g, log_iprim_max, log_jprim_max, cache') =
             numint1e_loop_layout envs cache;
          i_sh = shls envs ! 0;
          j_sh = shls envs ! 1;
          ai = bas envs PTR_EXP i_sh;
          aj = bas envs PTR_EXP j_sh;
          ci = bas envs PTR_COEFF i_sh;
          aij = env envs (ai + ip) + env envs (aj + jp);
          eij = (env envs (ai + ip) * env envs (aj + jp) / aij) * rrij;
          logcc = m (log_iprim_max + ip) + m (log_jprim_max + jp)
      in if numint1e_pair_skipped envs rrij log_iprim_max log_jprim_max m ip jp
         then (iempty, m)
         else
           let fac1i = fac1 * exp (- eij);
               m1 = GTOnumint_3d_orth g (i_l envs) (i_l envs + j_l envs)
                      (env envs (ai + ip)) (env envs (aj + jp)) fac1i (logcc + log_prec)
                      dimension a b mesh weights envs cache' m;
               m2 = plain_prim_to_ctr gctri (numint1e_len_g1d envs) g
                      (bas envs NPRIM_OF i_sh) (x_ctr envs ! 0) (env envs) (ci + ip)
                      iempty m1
           in (False, m2))"

text \<open>One iteration of the outer loop over \<open>jp\<close>; the state is the flag \<^verbatim>\<open>*jempty\<close> and
  the store.\<close>

definition numint1e_jp_step ::
  "real \<Rightarrow> real \<Rightarrow> int \<Rightarrow> real list \<Rightarrow> real list \<Rightarrow> int list \<Rightarrow> ptr \<Rightarrow> CINTEnvVars \<Rightarrow> ptr \<Rightarrow>
   real \<Rightarrow> int \<Rightarrow> bool \<times> mem \<Rightarrow> bool \<times> mem" where
  "numint1e_jp_step fac1 log_prec dimension a b mesh weights envs cache rrij jp st =
     (let (jempty, m) = st;
          (gctrj, gctri, g, log_iprim_max, log_jprim_max, cache') =
             numint1e_loop_layout envs cache;
          i_sh = shls envs ! 0;
          j_sh = shls envs ! 1;
          cj = bas envs PTR_COEFF j_sh;
          (iempty, m1) =
             fold (numint1e_ip_step fac1 log_prec dimension a b mesh weights envs cache
                     rrij jp)
               [0..bas envs NPRIM_OF i_sh - 1] (True, m)
      in if \<not> iempty then
           (False,
            plain_prim_to_ctr gctrj (x_ctr envs ! 0 * numint1e_len_g1d envs) gctri
              (bas envs NPRIM_OF j_sh) (x_ctr envs ! 1) (env envs) (cj + jp) jempty m1)
         else (jempty, m1))"

text \<open>The two loops that fill the tables \<^verbatim>\<open>log_iprim_max\<close> and \<^verbatim>\<open>log_jprim_max\<close>.\<close>

definition numint1e_log_tables :: "CINTEnvVars \<Rightarrow> ptr \<Rightarrow> mem \<Rightarrow> mem" where
  "numint1e_log_tables envs cache m =
     (let i_sh = shls envs ! 0;
          j_sh = shls envs ! 1;
          i_ctr = x_ctr envs ! 0;
          j_ctr = x_ctr envs ! 1;
          i_prim = bas envs NPRIM_OF i_sh;
          j_prim = bas envs NPRIM_OF j_sh;
          ci = bas envs PTR_COEFF i_sh;
          cj = bas envs PTR_COEFF j_sh;
          (gctrj, gctri, g, log_iprim_max, log_jprim_max, cache') =
             numint1e_loop_layout envs cache;
          m1 = fold (\<lambda>ip m'. m'(log_iprim_max + ip :=
                                    ln (max_pgto_coeff (env envs) ci i_prim i_ctr ip)))
                 [0..i_prim - 1] m
      in fold (\<lambda>jp m'. m'(log_jprim_max + jp :=
                                ln (max_pgto_coeff (env envs) cj j_prim j_ctr jp)))
           [0..j_prim - 1] m1)"

text \<open>\<^verbatim>\<open>GTOnumint1e_loop\<close> returns \<^verbatim>\<open>!*jempty\<close> and the store.\<close>

definition GTOnumint1e_loop ::
  "externals \<Rightarrow> ptr \<Rightarrow> real \<Rightarrow> real \<Rightarrow> int \<Rightarrow> real list \<Rightarrow> real list \<Rightarrow> int list \<Rightarrow> ptr \<Rightarrow>
   CINTEnvVars \<Rightarrow> ptr \<Rightarrow> mem \<Rightarrow> int \<times> mem" where
  "GTOnumint1e_loop ext out fac log_prec dimension a b mesh weights envs cache m =
     (let i_sh = shls envs ! 0;
          j_sh = shls envs ! 1;
          i_ctr = x_ctr envs ! 0;
          j_ctr = x_ctr envs ! 1;
          i_prim = bas envs NPRIM_OF i_sh;
          j_prim = bas envs NPRIM_OF j_sh;
          len_g1d = numint1e_len_g1d envs;
          (gctrj, gctri, g, log_iprim_max, log_jprim_max, cache') =
             numint1e_loop_layout envs cache;
          m2 = numint1e_log_tables envs cache m;
          rrij = CINTsquare_dist ext (ri envs) (rj envs);
          fac1 = fac * CINTcommon_fac_sp ext (i_l envs) * CINTcommon_fac_sp ext (j_l envs);
          (jempty, m3) =
             fold (numint1e_jp_step fac1 log_prec dimension a b mesh weights envs cache rrij)
               [0..j_prim - 1] (True, m2);
          m4 = (if \<not> jempty then
                  fold (\<lambda>n. GTOplain_vrr2d ext (out + n * nf envs) (gctrj + n * len_g1d)
                              cache' envs)
                    [0..i_ctr * j_ctr - 1] m3
                else m3)
      in (if \<not> jempty then 1 else 0, m4))"

subsection \<open>Scratch size and shell-pair driver\<close>

text \<open>\<^verbatim>\<open>_cache_size\<close>.\<close>

definition cache_size :: "int list \<Rightarrow> CINTEnvVars \<Rightarrow> int" where
  "cache_size mesh envs =
     (let i_ctr = x_ctr envs ! 0;
          j_ctr = x_ctr envs ! 1;
          n_comp = ncomp_e1 envs * ncomp_tensor envs;
          nc = nf envs * i_ctr * j_ctr;
          l = i_l envs + j_l envs;
          l1 = l + 1;
          cache_size0 = 0;
          cache_size1 = cache_size0 + CUM_LEN_CART l * (1 + i_ctr + i_ctr * j_ctr);
          cache_size2 = cache_size1 + l1 * (mesh ! 0 + mesh ! 1 + mesh ! 2);
          cache_size3 = cache_size2 + l1 * mesh ! 1 * mesh ! 2;
          cache_size4 = cache_size3 + l1 * l1 * mesh ! 2;
          cache_size5 = cache_size4 + 20
      in nc * n_comp + max cache_size5 (nf envs * 8 * OF_CMPLX))"

text \<open>The null pointer is the address 0.\<close>

definition NULL :: ptr where "NULL = 0"

text \<open>In \<^verbatim>\<open>GTO_numint1e_drv\<close> the buffer \<^verbatim>\<open>gctr\<close> is the start of \<^verbatim>\<open>cache\<close>; the loop gets
  the rest, from this address on.\<close>

definition numint1e_drv_loop_cache :: "CINTEnvVars \<Rightarrow> ptr \<Rightarrow> ptr" where
  "numint1e_drv_loop_cache envs cache =
     (let i_ctr = x_ctr envs ! 0;
          j_ctr = x_ctr envs ! 1;
          n_comp = ncomp_e1 envs * ncomp_tensor envs;
          nc = nf envs * i_ctr * j_ctr
      in cache + nc * n_comp)"

text \<open>\<^verbatim>\<open>GTO_numint1e_drv\<close> returns its \<^verbatim>\<open>int\<close> result and the store; the argument \<open>dims\<close>
  is \<open>None\<close> for a null pointer.\<close>

definition GTO_numint1e_drv ::
  "externals \<Rightarrow> ptr \<Rightarrow> int list option \<Rightarrow> c2s_fn \<Rightarrow> real \<Rightarrow> real \<Rightarrow> int \<Rightarrow> real list \<Rightarrow>
   real list \<Rightarrow> int list \<Rightarrow> ptr \<Rightarrow> CINTEnvVars \<Rightarrow> ptr \<Rightarrow> mem \<Rightarrow> int \<times> mem" where
  "GTO_numint1e_drv ext out dims f_c2s fac log_prec dimension a b mesh weights envs cache m =
     (if out = NULL then (cache_size mesh envs, m)
      else
        let i_ctr = x_ctr envs ! 0;
            j_ctr = x_ctr envs ! 1;
            n_comp = ncomp_e1 envs * ncomp_tensor envs;
            nc = nf envs * i_ctr * j_ctr;
            gctr = cache;
            cache' = numint1e_drv_loop_cache envs cache;
            (has_value, m1) = GTOnumint1e_loop ext gctr fac log_prec dimension a b mesh
                                weights envs cache' m;
            m2 = (if has_value = 0
                  then fold (\<lambda>n m'. m'(gctr + n := 0)) [0..nc * n_comp - 1] m1
                  else m1);
            counts = (if f_c2s = C2s_sph_1e
                      then [(i_l envs * 2 + 1) * i_ctr, (j_l envs * 2 + 1) * j_ctr]
                      else [nfi envs * i_ctr, nfj envs * j_ctr]);
            dims' = (case dims of None \<Rightarrow> counts | Some d \<Rightarrow> d);
            nout = dims' ! 0 * dims' ! 1;
            m3 = (if has_value \<noteq> 0
                  then fold (\<lambda>n. c2s_call ext f_c2s (out + nout * n) (gctr + nc * n) dims'
                                   envs cache')
                         [0..n_comp - 1] m2
                  else m2)
        in (has_value, m3))"

text \<open>The address one past the last element of \<^verbatim>\<open>weightz\<close> in the execution path of
  the driver, for a scratch buffer at \<open>cache\<close>: the driver passes the rest of the buffer
  after \<^verbatim>\<open>gctr\<close> to the loop, the loop passes the rest after its own sub-buffers to
  \<^verbatim>\<open>GTOnumint_3d_orth\<close> with \<open>topl = i_l + j_l\<close>, and \<^verbatim>\<open>weightz\<close> has
  \<open>l1*l1*mesh[2]\<close> elements, all of which the y contraction stores.\<close>

definition numint1e_weightz_end :: "int list \<Rightarrow> CINTEnvVars \<Rightarrow> ptr \<Rightarrow> ptr" where
  "numint1e_weightz_end mesh envs cache =
     (let (gctrj, gctri, g, log_iprim_max, log_jprim_max, cache') =
             numint1e_loop_layout envs (numint1e_drv_loop_cache envs cache);
          topl = i_l envs + j_l envs;
          (xs_exp, ys_exp, zs_exp, weightyz, weightz) = orth_layout topl mesh cache'
      in weightz + (topl + 1) * (topl + 1) * mesh ! 2)"

subsection \<open>The overlap kernels\<close>

datatype atm_slot = CHARGE_OF | PTR_COORD | NUC_MOD_OF | PTR_ZETA

text \<open>Modelled from the spec: \<^verbatim>\<open>CINTinit_int1e_EnvVars\<close> is the initialiser of the external
  integral library, not among the sources. Following the spec's data model (a shell has a
  centre, an angular momentum, primitive exponents and a contraction matrix; the
  contracted buffer is shaped contracted functions of i by contracted functions of j by
  Cartesian components) it records, for the shell pair \<open>shls\<close>, the two angular momenta,
  the two numbers of contracted functions, the numbers of Cartesian components
  \<open>(l+1)(l+2)/2\<close> of each shell and their product \<open>nf\<close>, the two centres, and the two
  component counts that the caller passes in \<open>ng\<close> (positions 5 and 7).\<close>

definition CINTinit_int1e_EnvVars ::
  "int list \<Rightarrow> int list \<Rightarrow> (atm_slot \<Rightarrow> int \<Rightarrow> int) \<Rightarrow> int \<Rightarrow> (bas_slot \<Rightarrow> int \<Rightarrow> int) \<Rightarrow> int \<Rightarrow>
   (int \<Rightarrow> real) \<Rightarrow> CINTEnvVars" where
  "CINTinit_int1e_EnvVars ng shls0 atm natm bas0 nbas env0 =
     (let i_sh = shls0 ! 0;
          j_sh = shls0 ! 1;
          il = bas0 ANG_OF i_sh;
          jl = bas0 ANG_OF j_sh;
          nfi0 = (il + 1) * (il + 2) sdiv 2;
          nfj0 = (jl + 1) * (jl + 2) sdiv 2;
          pri = atm PTR_COORD (bas0 ATOM_OF i_sh);
          prj = atm PTR_COORD (bas0 ATOM_OF j_sh)
      in \<lparr> shls = shls0, bas = bas0, env = env0, i_l = il, j_l = jl,
           nfi = nfi0, nfj = nfj0, nf = nfi0 * nfj0,
           x_ctr = [bas0 NCTR_OF i_sh, bas0 NCTR_OF j_sh],
           ncomp_e1 = ng ! 5, ncomp_tensor = ng ! 7,
           ri = [env0 pri, env0 (pri + 1), env0 (pri + 2)],
           rj = [env0 prj, env0 (prj + 1), env0 (prj + 2)] \<rparr>)"

text \<open>The type of the kernels that the fill driver receives through its \<^verbatim>\<open>intor\<close>
  pointer: output, \<^verbatim>\<open>dims\<close>, \<^verbatim>\<open>shls\<close>, the basis description, log-precision, dimension,
  lattice, mesh, weights, scratch.\<close>

type_synonym intor =
  "ptr \<Rightarrow> int list option \<Rightarrow> int list \<Rightarrow> (atm_slot \<Rightarrow> int \<Rightarrow> int) \<Rightarrow> int \<Rightarrow>
   (bas_slot \<Rightarrow> int \<Rightarrow> int) \<Rightarrow> int \<Rightarrow> (int \<Rightarrow> real) \<Rightarrow> real \<Rightarrow> int \<Rightarrow> real list \<Rightarrow> real list \<Rightarrow>
   int list \<Rightarrow> ptr \<Rightarrow> ptr \<Rightarrow> mem \<Rightarrow> int \<times> mem"

definition NUMINT1e_ovlp_cart :: "externals \<Rightarrow> intor" where
  "NUMINT1e_ovlp_cart ext out dims shls0 atm natm bas0 nbas env0 log_prec dimension a b
       mesh weights cache m =
     (let ng = [0, 0, 0, 0, 0, 1, 0, 1];
          envs = CINTinit_int1e_EnvVars ng shls0 atm natm bas0 nbas env0
      in GTO_numint1e_drv ext out dims C2s_cart_1e 1 log_prec dimension a b mesh weights
           envs cache m)"

definition NUMINT1e_ovlp_sph :: "externals \<Rightarrow> intor" where
  "NUMINT1e_ovlp_sph ext out dims shls0 atm natm bas0 nbas env0 log_prec dimension a b
       mesh weights cache m =
     (let ng = [0, 0, 0, 0, 0, 1, 0, 1];
          envs = CINTinit_int1e_EnvVars ng shls0 atm natm bas0 nbas env0
      in GTO_numint1e_drv ext out dims C2s_sph_1e 1 log_prec dimension a b mesh weights
           envs cache m)"

subsection \<open>Two-centre fill driver\<close>

text \<open>\<^verbatim>\<open>_max_cache_size\<close>: the largest answer of the sizing query over the diagonal shell
  pairs \<open>(i, i)\<close>; the store is threaded through the calls of the kernel.\<close>

definition max_cache_size ::
  "intor \<Rightarrow> int list \<Rightarrow> (atm_slot \<Rightarrow> int \<Rightarrow> int) \<Rightarrow> int \<Rightarrow> (bas_slot \<Rightarrow> int \<Rightarrow> int) \<Rightarrow> int \<Rightarrow>
   (int \<Rightarrow> real) \<Rightarrow> real list \<Rightarrow> real list \<Rightarrow> int list \<Rightarrow> ptr \<Rightarrow> mem \<Rightarrow> int \<times> mem" where
  "max_cache_size intor_fn shls_slice atm natm bas0 nbas env0 a b mesh weights m =
     (let i0 = min (shls_slice ! 0) (shls_slice ! 2);
          i1 = max (shls_slice ! 1) (shls_slice ! 3)
      in fold (\<lambda>i (cache_size_acc, m').
                 let (n, m'') = intor_fn NULL None [i, i] atm natm bas0 nbas env0 0 3 a b
                                  mesh weights NULL m'
                 in (max cache_size_acc n, m''))
           [i0..i1 - 1] (0, m))"

text \<open>Modelled from the spec: \<^verbatim>\<open>NPdsymm_triu\<close> belongs to the helper library
  (\<^verbatim>\<open>np_helper/np_helper.h\<close>), not among the sources. By the spec it mirrors the computed
  triangle of an \<open>n\<close> by \<open>n\<close> matrix into the other triangle with the matching symmetry:
  a copy for the Hermitian and symmetric modes, a negation for the anti-Hermitian mode.
  The fill driver stores the block of the shell pair \<open>(i, j)\<close>, \<open>i \<le> j\<close>, at
  \<^verbatim>\<open>mat + j0*naoi + i0\<close>, so the computed elements are at \<open>mat + q*n + p\<close> with \<open>p \<le> q\<close>
  and the mirrored ones at \<open>mat + p*n + q\<close> with \<open>p < q\<close>. The diagonal is not part of the
  mirrored triangle.\<close>

definition NPdsymm_triu :: "int \<Rightarrow> ptr \<Rightarrow> int \<Rightarrow> mem \<Rightarrow> mem" where
  "NPdsymm_triu n mat hermi m =
     (\<lambda>addr.
        let r = addr - mat;
            p = r div n;
            q = r mod n
        in if 0 \<le> r \<and> r < n * n \<and> p < q then
             (if hermi = HERMITIAN \<or> hermi = SYMMETRIC then m (mat + q * n + p)
              else if hermi = ANTIHERMI then - m (mat + q * n + p)
              else m addr)
           else m addr)"

text \<open>One iteration of the loop over \<open>ij\<close> in \<^verbatim>\<open>NUMINT1e_fill2c\<close>. The result of the
  kernel is ignored by the C code.\<close>

definition fill2c_pair ::
  "intor \<Rightarrow> ptr \<Rightarrow> int \<Rightarrow> int list \<Rightarrow> (int \<Rightarrow> int) \<Rightarrow> real \<Rightarrow> int \<Rightarrow> real list \<Rightarrow> real list \<Rightarrow>
   int list \<Rightarrow> ptr \<Rightarrow> (atm_slot \<Rightarrow> int \<Rightarrow> int) \<Rightarrow> int \<Rightarrow> (bas_slot \<Rightarrow> int \<Rightarrow> int) \<Rightarrow> int \<Rightarrow>
   (int \<Rightarrow> real) \<Rightarrow> ptr \<Rightarrow> int \<Rightarrow> mem \<Rightarrow> mem" where
  "fill2c_pair intor_fn mat hermi shls_slice ao_loc log_prec dimension a b mesh weights
       atm natm bas0 nbas env0 cache ij m =
     (let ish0 = shls_slice ! 0;
          ish1 = shls_slice ! 1;
          jsh0 = shls_slice ! 2;
          jsh1 = shls_slice ! 3;
          njsh = jsh1 - jsh0;
          naoi = ao_loc ish1 - ao_loc ish0;
          naoj = ao_loc jsh1 - ao_loc jsh0;
          dims = [naoi, naoj];
          ish = ij sdiv njsh;
          jsh = ij smod njsh
      in if hermi \<noteq> PLAIN \<and> ish > jsh then m
         else
           let ish' = ish + ish0;
               jsh' = jsh + jsh0;
               i0 = ao_loc ish' - ao_loc ish0;
               j0 = ao_loc jsh' - ao_loc jsh0
           in snd (intor_fn (mat + j0 * naoi + i0) (Some dims) [ish', jsh'] atm natm bas0
                     nbas env0 log_prec dimension a b mesh weights cache m))"

text \<open>\<^verbatim>\<open>NUMINT1e_fill2c\<close>. The iterations of the parallel loop are run one after the
  other, in the order of \<open>ij\<close>, with one scratch buffer; \<open>cache\<close> is the address that
  \<^verbatim>\<open>malloc\<close> returns for it, \<open>ncomp\<close> is the argument \<^verbatim>\<open>comp\<close>. The mirror step comes
  after the loop.\<close>

definition NUMINT1e_fill2c ::
  "intor \<Rightarrow> ptr \<Rightarrow> int \<Rightarrow> int \<Rightarrow> int list \<Rightarrow> (int \<Rightarrow> int) \<Rightarrow> real \<Rightarrow> int \<Rightarrow> real list \<Rightarrow>
   real list \<Rightarrow> int list \<Rightarrow> ptr \<Rightarrow> (atm_slot \<Rightarrow> int \<Rightarrow> int) \<Rightarrow> int \<Rightarrow>
   (bas_slot \<Rightarrow> int \<Rightarrow> int) \<Rightarrow> int \<Rightarrow> (int \<Rightarrow> real) \<Rightarrow> int \<Rightarrow> ptr \<Rightarrow> mem \<Rightarrow> mem" where
  "NUMINT1e_fill2c intor_fn mat ncomp hermi shls_slice ao_loc log_prec dimension a b mesh
       weights atm natm bas0 nbas env0 nenv cache m =
     (let ish0 = shls_slice ! 0;
          ish1 = shls_slice ! 1;
          jsh0 = shls_slice ! 2;
          jsh1 = shls_slice ! 3;
          nish = ish1 - ish0;
          njsh = jsh1 - jsh0;
          naoi = ao_loc ish1 - ao_loc ish0;
          (cache_size_max, m0) = max_cache_size intor_fn shls_slice atm natm bas0 nbas env0
                                   a b mesh weights m;
          m1 = fold (fill2c_pair intor_fn mat hermi shls_slice ao_loc log_prec dimension
                       a b mesh weights atm natm bas0 nbas env0 cache)
                 [0..nish * njsh - 1] m0
      in if hermi \<noteq> PLAIN
         then fold (\<lambda>ic. NPdsymm_triu naoi (mat + ic * naoi * naoi) hermi) [0..ncomp - 1] m1
         else m1)"

text \<open>The shell pairs \<open>(ish, jsh)\<close> for which the loop of \<^verbatim>\<open>NUMINT1e_fill2c\<close> calls the
  kernel, in the order of the calls.\<close>

definition fill2c_calls :: "int \<Rightarrow> int list \<Rightarrow> (int \<times> int) list" where
  "fill2c_calls hermi shls_slice =
     (let ish0 = shls_slice ! 0;
          ish1 = shls_slice ! 1;
          jsh0 = shls_slice ! 2;
          jsh1 = shls_slice ! 3;
          nish = ish1 - ish0;
          njsh = jsh1 - jsh0
      in map (\<lambda>ij. (ij sdiv njsh + ish0, ij smod njsh + jsh0))
           (filter (\<lambda>ij. \<not> (hermi \<noteq> PLAIN \<and> ij sdiv njsh > ij smod njsh))
              [0..nish * njsh - 1]))"

text \<open>The call of the kernel for the shell pair \<open>(ish, jsh)\<close>, as the loop makes it.\<close>

definition fill2c_call ::
  "intor \<Rightarrow> ptr \<Rightarrow> int list \<Rightarrow> (int \<Rightarrow> int) \<Rightarrow> real \<Rightarrow> int \<Rightarrow> real list \<Rightarrow> real list \<Rightarrow>
   int list \<Rightarrow> ptr \<Rightarrow> (atm_slot \<Rightarrow> int \<Rightarrow> int) \<Rightarrow> int \<Rightarrow> (bas_slot \<Rightarrow> int \<Rightarrow> int) \<Rightarrow> int \<Rightarrow>
   (int \<Rightarrow> real) \<Rightarrow> ptr \<Rightarrow> int \<times> int \<Rightarrow> mem \<Rightarrow> mem" where
  "fill2c_call intor_fn mat shls_slice ao_loc log_prec dimension a b mesh weights
       atm natm bas0 nbas env0 cache pair m =
     (let ish0 = shls_slice ! 0;
          ish1 = shls_slice ! 1;
          jsh0 = shls_slice ! 2;
          jsh1 = shls_slice ! 3;
          naoi = ao_loc ish1 - ao_loc ish0;
          naoj = ao_loc jsh1 - ao_loc jsh0;
          i0 = ao_loc (fst pair) - ao_loc ish0;
          j0 = ao_loc (snd pair) - ao_loc jsh0
      in snd (intor_fn (mat + j0 * naoi + i0) (Some [naoi, naoj]) [fst pair, snd pair]
                atm natm bas0 nbas env0 log_prec dimension a b mesh weights cache m))"

subsection \<open>Reference notions of the specification\<close>

text \<open>The order of the Cartesian integral buffer in the spec's words: total \<open>l\<close>
  ascending from \<open>floorl\<close> to \<open>topl\<close>, then \<open>lx\<close> descending from \<open>l\<close> to 0, then \<open>ly\<close>
  descending from \<open>l - lx\<close> to 0, with \<open>lz = l - lx - ly\<close>.\<close>

definition cart_row :: "int \<Rightarrow> int \<Rightarrow> (int \<times> int \<times> int) list" where
  "cart_row l lx = map (\<lambda>ly. (lx, ly, l - lx - ly)) (rev [0..l - lx])"

definition cart_shell :: "int \<Rightarrow> (int \<times> int \<times> int) list" where
  "cart_shell l = concat (map (cart_row l) (rev [0..l]))"

definition cart_triples :: "int \<Rightarrow> int \<Rightarrow> (int \<times> int \<times> int) list" where
  "cart_triples floorl topl = concat (map cart_shell [floorl..topl])"

text \<open>The elements of a list paired with their positions \<open>n\<close>, \<open>n + 1\<close>, ...\<close>

primrec number_from :: "int \<Rightarrow> 'a list \<Rightarrow> (int \<times> 'a) list" where
  "number_from n [] = []"
| "number_from n (x # xs) = (n, x) # number_from (n + 1) xs"

text \<open>The full-range contraction of the y axis in the spec's words: for the x power
  \<open>lx\<close>, the y power \<open>ly\<close> and the z index \<open>iz\<close>, the sum over all \<open>mesh[1]\<close> grid points
  \<open>iy\<close> of \<open>weightyz[lx][iy][iz]\<close> times \<open>ys_exp[ly*mesh[1] + iy]\<close>.\<close>

definition y_contract_ref :: "int list \<Rightarrow> ptr \<Rightarrow> ptr \<Rightarrow> mem \<Rightarrow> int \<Rightarrow> int \<Rightarrow> int \<Rightarrow> real" where
  "y_contract_ref mesh ys_exp weightyz m lx ly iz =
     (\<Sum>iy\<leftarrow>[0..mesh ! 1 - 1].
        m (weightyz + lx * (mesh ! 1 * mesh ! 2) + iy * mesh ! 2 + iz)
        * m (ys_exp + ly * mesh ! 1 + iy))"

text \<open>A store that holds the given values from the address \<open>base\<close> on and 0 elsewhere.\<close>

definition mem_of_list :: "ptr \<Rightarrow> real list \<Rightarrow> mem" where
  "mem_of_list base xs =
     (\<lambda>p. if base \<le> p \<and> p < base + int (length xs) then xs ! nat (p - base) else 0)"

subsection \<open>Concrete inputs\<close>

text \<open>Basis descriptions, as the \<^verbatim>\<open>bas(SLOT, I)\<close> lookup. Two shells: an s shell with 8
  contracted functions and a p shell with 2.\<close>

definition bas_s8_p2 :: "bas_slot \<Rightarrow> int \<Rightarrow> int" where
  "bas_s8_p2 slot sh =
     (case slot of
        ANG_OF \<Rightarrow> (if sh = 0 then 0 else 1)
      | NCTR_OF \<Rightarrow> (if sh = 0 then 8 else 2)
      | NPRIM_OF \<Rightarrow> (if sh = 0 then 8 else 2)
      | _ \<Rightarrow> 0)"

text \<open>Two s shells with one contracted function each, of 11 and of 10 primitives.\<close>

definition bas_s11_s10 :: "bas_slot \<Rightarrow> int \<Rightarrow> int" where
  "bas_s11_s10 slot sh =
     (case slot of
        ANG_OF \<Rightarrow> 0
      | NCTR_OF \<Rightarrow> 1
      | NPRIM_OF \<Rightarrow> (if sh = 0 then 11 else 10)
      | _ \<Rightarrow> 0)"

text \<open>Two s shells of one primitive each, with exponent 1 and coefficient 1, on two
  atoms at the origin and at \<open>(10, 0, 0)\<close>: the parameter array holds the exponent, the
  coefficient and the two centres.\<close>

definition bas_far :: "bas_slot \<Rightarrow> int \<Rightarrow> int" where
  "bas_far slot sh =
     (case slot of
        ATOM_OF \<Rightarrow> sh
      | ANG_OF \<Rightarrow> 0
      | NPRIM_OF \<Rightarrow> 1
      | NCTR_OF \<Rightarrow> 1
      | KAPPA_OF \<Rightarrow> 0
      | PTR_EXP \<Rightarrow> 0
      | PTR_COEFF \<Rightarrow> 1)"

definition atm_far :: "atm_slot \<Rightarrow> int \<Rightarrow> int" where
  "atm_far slot atom = (case slot of PTR_COORD \<Rightarrow> (if atom = 0 then 2 else 5) | _ \<Rightarrow> 0)"

definition env_far :: "int \<Rightarrow> real" where
  "env_far = mem_of_list 0 [1, 1, 0, 0, 0, 10, 0, 0]"

text \<open>The squared distance of two points, for the external parameter
  \<open>CINTsquare_dist\<close>.\<close>

definition square_dist :: "real list \<Rightarrow> real list \<Rightarrow> real" where
  "square_dist r1 r2 =
     (r1 ! 0 - r2 ! 0) * (r1 ! 0 - r2 ! 0) + (r1 ! 1 - r2 ! 1) * (r1 ! 1 - r2 ! 1)
     + (r1 ! 2 - r2 ! 2) * (r1 ! 2 - r2 ! 2)"

text \<open>A kernel for the fill driver: it answers the sizing query with 1 and otherwise
  stores the number \<open>ish + 2*jsh + 1\<close> in the first element of its output block.\<close>

definition probe_intor :: intor where
  "probe_intor out dims shls0 atm natm bas0 nbas env0 log_prec dimension a b mesh weights
       cache m =
     (if out = NULL then (1, m)
      else (1, m(out := of_int (shls0 ! 0 + 2 * shls0 ! 1 + 1))))"

text \<open>A cutoff radius far below the spacing of the binary64 values around 1.\<close>

definition tiny_cutoff :: real where
  "tiny_cutoff = 1 / 2 ^ 60"

section \<open>Properties\<close>

text \<open>The loops of the z stage are unfolded by hand, one iteration at a time.\<close>

declare orth_z_ly_loop.simps [simp del] orth_z_lx_loop.simps [simp del]
  orth_z_l_loop.simps [simp del]

subsection \<open>Stores updated in a loop\<close>

text \<open>A loop that stores to the addresses \<open>f i\<close> leaves every other address as it was,
  and when the addresses are distinct each of them holds the value stored there.\<close>

lemma fold_upd_other:
  assumes "\<forall>i \<in> set xs. f i \<noteq> p"
  shows "fold (\<lambda>i m'. m'(f i := v i)) xs m p = m p"
  using assms by (induction xs arbitrary: m) auto

lemma fold_upd_hit:
  assumes "distinct xs" "inj_on g (set xs)" "x \<in> set xs"
  shows "fold (\<lambda>y m'. m'(g y := w y)) xs m (g x) = w x"
  using assms
proof (induction xs arbitrary: m)
  case Nil
  then show ?case by simp
next
  case (Cons a xs)
  show ?case
  proof (cases "x = a")
    case True
    have other: "\<forall>y \<in> set xs. g y \<noteq> g x"
      using Cons.prems True by (auto simp: inj_on_def)
    have "fold (\<lambda>y m'. m'(g y := w y)) (a # xs) m (g x) =
            fold (\<lambda>y m'. m'(g y := w y)) xs (m(g a := w a)) (g x)"
      by simp
    also have "\<dots> = (m(g a := w a)) (g x)"
      by (rule fold_upd_other [OF other, where v = w and m = "m(g a := w a)"])
    also have "\<dots> = w x" using True by simp
    finally show ?thesis .
  next
    case False
    then have "x \<in> set xs" using Cons.prems by simp
    moreover have "distinct xs" "inj_on g (set xs)"
      using Cons.prems by (simp_all add: inj_on_def)
    ultimately show ?thesis using Cons.IH by simp
  qed
qed

subsection \<open>Rounding to binary64\<close>

text \<open>Rounding to the nearest integer stays between floor and ceiling, and a half
  below an even integer is rounded up to it.\<close>

lemma rne_bounds: "\<lfloor>m\<rfloor> \<le> rne m" "rne m \<le> \<lfloor>m\<rfloor> + 1"
  by (simp_all add: rne_def Let_def)

lemma rne_ge:
  assumes "of_int n \<le> m"
  shows "n \<le> rne m"
proof -
  from assms have "n \<le> \<lfloor>m\<rfloor>" by (simp add: le_floor_iff)
  with rne_bounds(1) [of m] show ?thesis by simp
qed

lemma rne_le:
  assumes "m \<le> of_int n"
  shows "rne m \<le> n"
proof (cases "m = of_int n")
  case True
  then show ?thesis by (simp add: rne_def Let_def)
next
  case False
  with assms have "m < of_int n" by simp
  then have "\<lfloor>m\<rfloor> < n" by (simp add: floor_less_iff)
  with rne_bounds(2) [of m] show ?thesis by simp
qed

lemma rne_below_half:
  assumes "m < of_int n - 1/2"
  shows "rne m \<le> n - 1"
proof -
  have "m < of_int n" using assms by simp
  then have f: "\<lfloor>m\<rfloor> \<le> n - 1" by (simp add: floor_less_iff)
  show ?thesis
  proof (cases "\<lfloor>m\<rfloor> = n - 1")
    case True
    then have "m - of_int \<lfloor>m\<rfloor> < 1/2" using assms by simp
    then show ?thesis using True by (simp add: rne_def Let_def)
  next
    case False
    with f rne_bounds(2) [of m] show ?thesis by simp
  qed
qed

lemma rne_above_half:
  assumes "of_int n - 1/2 \<le> m" and "even n"
  shows "n \<le> rne m"
proof -
  have "of_int (n - 1) \<le> m" using assms by simp
  then have f: "n - 1 \<le> \<lfloor>m\<rfloor>" by (simp add: le_floor_iff)
  show ?thesis
  proof (cases "\<lfloor>m\<rfloor> = n - 1")
    case True
    then have d: "1/2 \<le> m - of_int \<lfloor>m\<rfloor>" using assms by simp
    have "odd \<lfloor>m\<rfloor>" using True assms(2) by simp
    with d True show ?thesis by (simp add: rne_def Let_def)
  next
    case False
    with f rne_bounds(1) [of m] show ?thesis by simp
  qed
qed

text \<open>Once the exponent of a number is known, its rounding is a computation.\<close>

lemma b64_round_binade:
  assumes "2 powr of_int e \<le> \<bar>x\<bar>" "\<bar>x\<bar> < 2 powr of_int (e + 1)" "- 1022 \<le> e"
  shows "b64_round x =
     (let q = 2 powr of_int (e - 52);
          v = of_int (rne (x / q)) * q
      in if 2 powr 1024 \<le> \<bar>v\<bar> then (if 0 < x then PInf else MInf)
         else if v = 0 \<and> x < 0 then NZero
         else Fin v)"
proof -
  have pos: "0 < \<bar>x\<bar>" using assms(1) by (smt (verit) powr_gt_zero)
  have "\<lfloor>log 2 \<bar>x\<bar>\<rfloor> = e"
    using assms pos by (subst floor_log_eq_powr_iff) simp_all
  then show ?thesis using pos assms(3) by (simp add: b64_round_def Let_def)
qed

lemma p2_mono: "a \<le> b \<Longrightarrow> (2::real) powr of_int a \<le> 2 powr of_int b"
  by simp

lemma p2_less_iff: "(2::real) powr of_int a < 2 powr of_int b \<longleftrightarrow> a < b"
  by simp

text \<open>A positive number rounds to a finite non-negative value below
  \<open>2^1024 - 2^970\<close>, half a unit in the last place above the largest \<^verbatim>\<open>double\<close>, and to
  plus infinity from there on.\<close>

lemma b64_round_pos:
  assumes "0 < x"
  shows "(x < 2 powr 1024 - 2 powr 970 \<longrightarrow>
            (\<exists>v. 0 \<le> v \<and> v < 2 powr 1024 \<and> b64_round x = Fin v)) \<and>
         (2 powr 1024 - 2 powr 970 \<le> x \<longrightarrow> b64_round x = PInf)"
proof -
  define e0 where "e0 = \<lfloor>log 2 x\<rfloor>"
  define E where "E = max e0 (- 1022)"
  define q where "q = (2::real) powr of_int (E - 52)"
  define m where "m = x / q"
  define v where "v = of_int (rne m) * q"
  have qpos: "0 < q" by (simp add: q_def)
  have "2 powr of_int e0 \<le> x \<and> x < 2 powr (of_int e0 + 1)"
    using floor_log_eq_powr_iff [of x 2 e0] assms by (simp add: e0_def)
  then have lo: "2 powr of_int e0 \<le> x" and hi: "x < 2 powr of_int (e0 + 1)"
    by simp_all
  have "2 powr of_int (e0 + 1) \<le> (2::real) powr of_int (E + 1)"
    by (rule p2_mono) (simp add: E_def)
  with hi have hiE: "x < 2 powr of_int (E + 1)" by (rule less_le_trans)
  have r: "b64_round x = (if 2 powr 1024 \<le> \<bar>v\<bar> then PInf else Fin v)"
    using assms by (simp add: b64_round_def Let_def e0_def E_def q_def m_def v_def)
  have mnn: "0 \<le> m" using assms qpos by (simp add: m_def)
  then have "0 \<le> rne m" using rne_ge [of 0 m] by simp
  then have vnn: "0 \<le> v" using qpos by (simp add: v_def)
  have xq: "x = m * q" using qpos by (simp add: m_def)
  have E1: "(2::real) powr of_int (E + 1) = 2 powr 53 * q"
  proof -
    have "of_int (E + 1) = (53::real) + of_int (E - 52)" by simp
    then show ?thesis unfolding q_def by (simp only: powr_add)
  qed
  have m53: "m < 2 powr 53" using hiE qpos unfolding E1 xq by simp
  have a: "\<exists>v. 0 \<le> v \<and> v < 2 powr 1024 \<and> b64_round x = Fin v"
    if lt: "x < 2 powr 1024 - 2 powr 970"
  proof -
    have "(2::real) powr of_int e0 < 2 powr of_int 1024" using lo lt by simp
    then have "e0 < 1024" unfolding p2_less_iff .
    then have E1023: "E \<le> 1023" by (simp add: E_def)
    have "v < 2 powr 1024"
    proof (cases "E = 1023")
      case True
      then have q971: "q = 2 powr 971" by (simp add: q_def)
      have "m < of_int (2 ^ 53) - 1/2"
        using lt qpos unfolding xq q971 by (simp add: field_simps)
      then have "rne m \<le> 2 ^ 53 - 1" by (rule rne_below_half)
      then have "(of_int (rne m) :: real) \<le> of_int (2 ^ 53 - 1)"
        by (simp only: of_int_le_iff)
      then have "v \<le> of_int (2 ^ 53 - 1) * q" unfolding v_def using qpos by simp
      also have "\<dots> < 2 powr 1024" unfolding q971 by simp
      finally show ?thesis .
    next
      case False
      with E1023 have E1022: "E + 1 \<le> 1023" by simp
      have "m \<le> of_int (2 ^ 53)" using m53 by simp
      then have "rne m \<le> 2 ^ 53" by (rule rne_le)
      then have "(of_int (rne m) :: real) \<le> of_int (2 ^ 53)"
        by (simp only: of_int_le_iff)
      then have "v \<le> of_int (2 ^ 53) * q" unfolding v_def using qpos by simp
      also have "\<dots> = 2 powr of_int (E + 1)" unfolding E1 by simp
      also have "\<dots> \<le> 2 powr of_int 1023" using E1022 by (rule p2_mono)
      also have "\<dots> < 2 powr 1024" by simp
      finally show ?thesis .
    qed
    with vnn r show ?thesis by simp
  qed
  have b: "b64_round x = PInf" if ge: "2 powr 1024 - 2 powr 970 \<le> x"
  proof -
    have "(2::real) powr of_int 1023 \<le> 2 powr 1024 - 2 powr 970" by simp
    with ge hi have "(2::real) powr of_int 1023 < 2 powr of_int (e0 + 1)" by simp
    then have "1023 < e0 + 1" unfolding p2_less_iff .
    then have e1023: "1023 \<le> e0" and EE: "E = e0" by (simp_all add: E_def)
    have "2 powr 1024 \<le> v"
    proof (cases "e0 = 1023")
      case True
      then have q971: "q = 2 powr 971" by (simp add: q_def EE)
      have "of_int (2 ^ 53) - 1/2 \<le> m"
        using ge qpos unfolding xq q971 by (simp add: field_simps)
      then have "2 ^ 53 \<le> rne m" by (rule rne_above_half) simp
      then have "(of_int (2 ^ 53) :: real) \<le> of_int (rne m)"
        by (simp only: of_int_le_iff)
      then have "of_int (2 ^ 53) * q \<le> v" unfolding v_def using qpos by simp
      moreover have "of_int (2 ^ 53) * q = 2 powr 1024" unfolding q971 by simp
      ultimately show ?thesis by simp
    next
      case False
      with e1023 have e1024: "1024 \<le> e0" by simp
      have e0q: "(2::real) powr of_int e0 = 2 powr 52 * q"
      proof -
        have "of_int e0 = (52::real) + of_int (e0 - 52)" by simp
        then show ?thesis unfolding q_def EE by (simp only: powr_add)
      qed
      have "of_int (2 ^ 52) \<le> m" using lo qpos unfolding e0q xq by simp
      then have "2 ^ 52 \<le> rne m" by (rule rne_ge)
      then have "(of_int (2 ^ 52) :: real) \<le> of_int (rne m)"
        by (simp only: of_int_le_iff)
      then have "of_int (2 ^ 52) * q \<le> v" unfolding v_def using qpos by simp
      moreover have "of_int (2 ^ 52) * q = 2 powr of_int e0" unfolding e0q by simp
      moreover have "(2::real) powr of_int 1024 \<le> 2 powr of_int e0"
        using e1024 by (rule p2_mono)
      ultimately show ?thesis by simp
    qed
    with vnn r show ?thesis by simp
  qed
  from a b show ?thesis by blast
qed

lemma b64_round_nonneg_finite:
  assumes "0 \<le> x" and "x < 2 powr 1024 - 2 powr 970"
  shows "\<exists>v. 0 \<le> v \<and> v < 2 powr 1024 \<and> b64_round x = Fin v"
proof (cases "x = 0")
  case True
  then show ?thesis by (simp add: b64_round_def)
next
  case False
  with assms(1) have "0 < x" by simp
  from b64_round_pos [OF this] assms(2) show ?thesis by blast
qed

lemma b64_sqrt_finite:
  assumes "0 \<le> v" and "v < 2 powr 1024"
  shows "\<exists>r. 0 \<le> r \<and> r < 2 powr 1024 \<and> b64_sqrt (Fin v) = Fin r"
proof -
  have "v < (2 ^ 512)\<^sup>2" using assms(2) by simp
  then have "sqrt v < 2 ^ 512" by (intro real_less_lsqrt) simp_all
  also have "(2::real) ^ 512 < 2 powr 1024 - 2 powr 970" by simp
  finally have "sqrt v < 2 powr 1024 - 2 powr 970" .
  moreover have "0 \<le> sqrt v" using assms(1) by simp
  ultimately have "\<exists>r. 0 \<le> r \<and> r < 2 powr 1024 \<and> b64_round (sqrt v) = Fin r"
    by (intro b64_round_nonneg_finite)
  then show ?thesis using assms(1) by (simp add: b64_sqrt_def)
qed

text \<open>The operations on finite operands.\<close>

lemma b64_add_Fin:
  "b64_add (Fin x) (Fin y) = (if x + y = 0 then Fin 0 else b64_round (x + y))"
  by (auto simp add: b64_add_def b64_finite_def b64_val_def b64_zero_def b64_signbit_def)

lemma b64_sub_Fin:
  "y \<noteq> 0 \<Longrightarrow> b64_sub (Fin x) (Fin y) = (if x = y then Fin 0 else b64_round (x - y))"
  by (simp add: b64_sub_def b64_neg_def b64_add_Fin)

lemma b64_mul_Fin:
  "b64_mul (Fin x) (Fin y) =
     (if x * y = 0 then b64_zero ((x < 0) \<noteq> (y < 0)) else b64_round (x * y))"
  by (simp add: b64_mul_def b64_finite_def b64_val_def b64_signbit_def)

lemma b64_div_Fin:
  "x \<noteq> 0 \<Longrightarrow> y \<noteq> 0 \<Longrightarrow> b64_div (Fin x) (Fin y) = b64_round (x / y)"
  by (simp add: b64_div_def b64_finite_def b64_val_def)

lemma b64_div_PInf: "0 < a \<Longrightarrow> b64_div PInf (Fin a) = PInf"
  by (simp add: b64_div_def b64_finite_def b64_inf_def b64_signbit_def)

lemma b64_gt_zero:
  "b64_gt p (Fin 0) \<longleftrightarrow> p = PInf \<or> (\<exists>v. p = Fin v \<and> 0 < v)"
  by (cases p) (simp_all add: b64_gt_def b64_val_def)

lemma b64_gt_finite:
  "b64_finite a \<Longrightarrow> b64_finite b \<Longrightarrow> b64_gt a b \<longleftrightarrow> b64_val b < b64_val a"
  by (cases a; cases b) (simp_all add: b64_gt_def b64_finite_def b64_val_def)

lemma round_0: "b64_round 0 = Fin 0"
  by (simp add: b64_round_def)

text \<open>Rounding to the nearest integer is monotone and odd.\<close>

lemma rne_mono:
  assumes "m \<le> m'"
  shows "rne m \<le> rne m'"
proof (cases "\<lfloor>m\<rfloor> = \<lfloor>m'\<rfloor>")
  case True
  then have "m - of_int \<lfloor>m\<rfloor> \<le> m' - of_int \<lfloor>m'\<rfloor>" using assms by simp
  then show ?thesis using True by (auto simp add: rne_def Let_def)
next
  case False
  moreover have "\<lfloor>m\<rfloor> \<le> \<lfloor>m'\<rfloor>" using assms by (rule floor_mono)
  ultimately have "\<lfloor>m\<rfloor> + 1 \<le> \<lfloor>m'\<rfloor>" by simp
  with rne_bounds(2) [of m] rne_bounds(1) [of m'] show ?thesis by simp
qed

lemma rne_of_int: "rne (of_int k) = k"
  by (simp add: rne_def Let_def)

lemma rne_minus: "rne (- m) = - rne m"
proof (cases "m = of_int \<lfloor>m\<rfloor>")
  case True
  then obtain k where "m = of_int k" ..
  then have "- m = of_int (- k)" by simp
  then show ?thesis using \<open>m = of_int k\<close> by (simp only: rne_of_int)
next
  case False
  have lo: "of_int \<lfloor>m\<rfloor> < m"
    using False of_int_floor_le [of m] by linarith
  have hi: "m < of_int \<lfloor>m\<rfloor> + 1" by linarith
  have c: "of_int (- \<lfloor>m\<rfloor> - 1) = - of_int \<lfloor>m\<rfloor> - (1::real)" by simp
  have fl: "\<lfloor>- m\<rfloor> = - \<lfloor>m\<rfloor> - 1"
  proof (rule floor_unique)
    show "of_int (- \<lfloor>m\<rfloor> - 1) \<le> - m" unfolding c using hi by linarith
    show "- m < of_int (- \<lfloor>m\<rfloor> - 1) + 1" unfolding c using lo by linarith
  qed
  have d: "- m - of_int \<lfloor>- m\<rfloor> = 1 - (m - of_int \<lfloor>m\<rfloor>)" unfolding fl by simp
  define dd where "dd = m - of_int \<lfloor>m\<rfloor>"
  show ?thesis
    unfolding rne_def Let_def d unfolding fl dd_def [symmetric]
    by (auto simp add: field_simps)
qed

text \<open>Rounding to binary64 is odd, and monotone on the numbers that do not overflow.\<close>

lemma b64_round_minus:
  "b64_val (b64_round (- x)) = - b64_val (b64_round x) \<and>
   (b64_finite (b64_round (- x)) \<longleftrightarrow> b64_finite (b64_round x))"
proof (cases "x = 0")
  case True
  then show ?thesis by (simp add: b64_round_def b64_val_def b64_finite_def)
next
  case False
  define q where "q = (2::real) powr of_int (max \<lfloor>log 2 \<bar>x\<bar>\<rfloor> (- 1022) - 52)"
  define v where "v = of_int (rne (x / q)) * q"
  have a: "b64_round x = (if 2 powr 1024 \<le> \<bar>v\<bar> then (if 0 < x then PInf else MInf)
           else if v = 0 \<and> x < 0 then NZero else Fin v)"
    unfolding b64_round_def Let_def v_def q_def by (simp only: False if_False)
  have nz: "- x \<noteq> 0" using False by simp
  have q': "(2::real) powr of_int (max \<lfloor>log 2 \<bar>- x\<bar>\<rfloor> (- 1022) - 52) = q"
    unfolding q_def by (simp only: abs_minus_cancel)
  have v': "of_int (rne (- x / q)) * q = - v"
    by (simp add: v_def rne_minus)
  have "b64_round (- x) = (if 2 powr 1024 \<le> \<bar>- v\<bar> then (if 0 < - x then PInf else MInf)
           else if - v = 0 \<and> - x < 0 then NZero else Fin (- v))"
    unfolding b64_round_def Let_def q' v' by (simp only: nz if_False)
  then have b: "b64_round (- x) = (if 2 powr 1024 \<le> \<bar>v\<bar> then (if x < 0 then PInf else MInf)
           else if v = 0 \<and> 0 < x then NZero else Fin (- v))"
    by simp
  show ?thesis unfolding a b by (simp add: b64_val_def b64_finite_def)
qed

lemma b64_round_pos_decomp:
  assumes "0 < x"
  obtains E k where "E = max \<lfloor>log 2 x\<rfloor> (- 1022)"
    and "k = rne (x / 2 powr of_int (E - 52))"
    and "b64_round x =
           (if (2::real) powr 1024 \<le> of_int k * 2 powr of_int (E - 52) then PInf
            else Fin (of_int k * 2 powr of_int (E - 52)))"
    and "of_int k * (2::real) powr of_int (E - 52) \<le> 2 powr of_int (E + 1)"
    and "- 1022 < E \<Longrightarrow> (2::real) powr of_int E \<le> of_int k * 2 powr of_int (E - 52)"
proof -
  define e0 where "e0 = \<lfloor>log 2 x\<rfloor>"
  define E where "E = max e0 (- 1022)"
  define q where "q = (2::real) powr of_int (E - 52)"
  define m where "m = x / q"
  define v where "v = of_int (rne m) * q"
  have qpos: "0 < q" by (simp add: q_def)
  have "2 powr of_int e0 \<le> x \<and> x < 2 powr (of_int e0 + 1)"
    using floor_log_eq_powr_iff [of x 2 e0] assms by (simp add: e0_def)
  then have lo: "2 powr of_int e0 \<le> x" and hi: "x < 2 powr of_int (e0 + 1)"
    by simp_all
  have "2 powr of_int (e0 + 1) \<le> (2::real) powr of_int (E + 1)"
    by (rule p2_mono) (simp add: E_def)
  with hi have hiE: "x < 2 powr of_int (E + 1)" by (rule less_le_trans)
  have mnn: "0 \<le> m" using assms qpos by (simp add: m_def)
  then have "0 \<le> rne m" using rne_ge [of 0 m] by simp
  then have vnn: "0 \<le> v" using qpos by (simp add: v_def)
  have r: "b64_round x = (if 2 powr 1024 \<le> v then PInf else Fin v)"
    using assms vnn by (simp add: b64_round_def Let_def e0_def E_def q_def m_def v_def)
  have xq: "x = m * q" using qpos by (simp add: m_def)
  have E1: "(2::real) powr of_int (E + 1) = 2 powr 53 * q"
  proof -
    have "of_int (E + 1) = (53::real) + of_int (E - 52)" by simp
    then show ?thesis unfolding q_def by (simp only: powr_add)
  qed
  have E0: "(2::real) powr of_int E = 2 powr 52 * q"
  proof -
    have "of_int E = (52::real) + of_int (E - 52)" by simp
    then show ?thesis unfolding q_def by (simp only: powr_add)
  qed
  have m53: "m < 2 powr 53" using hiE qpos unfolding E1 xq by simp
  have up: "v \<le> 2 powr of_int (E + 1)"
  proof -
    have "m \<le> of_int (2 ^ 53)" using m53 by simp
    then have "rne m \<le> 2 ^ 53" by (rule rne_le)
    then have "(of_int (rne m) :: real) \<le> of_int (2 ^ 53)" by (simp only: of_int_le_iff)
    then have "v \<le> of_int (2 ^ 53) * q" unfolding v_def using qpos by simp
    also have "\<dots> = 2 powr of_int (E + 1)" unfolding E1 by simp
    finally show ?thesis .
  qed
  have down: "2 powr of_int E \<le> v" if "- 1022 < E"
  proof -
    from that have "E = e0" by (simp add: E_def split: if_splits)
    with lo have "2 powr of_int E \<le> x" by simp
    then have "of_int (2 ^ 52) \<le> m" using qpos unfolding E0 xq by simp
    then have "2 ^ 52 \<le> rne m" by (rule rne_ge)
    then have "(of_int (2 ^ 52) :: real) \<le> of_int (rne m)" by (simp only: of_int_le_iff)
    then have "of_int (2 ^ 52) * q \<le> v" unfolding v_def using qpos by simp
    then show ?thesis unfolding E0 by simp
  qed
  show ?thesis
  proof (rule that [of E "rne m"])
    show "E = max \<lfloor>log 2 x\<rfloor> (- 1022)" unfolding E_def e0_def ..
    show "rne m = rne (x / 2 powr of_int (E - 52))" unfolding m_def q_def ..
    show "b64_round x =
           (if (2::real) powr 1024 \<le> of_int (rne m) * 2 powr of_int (E - 52) then PInf
            else Fin (of_int (rne m) * 2 powr of_int (E - 52)))"
      using r unfolding v_def q_def .
    show "of_int (rne m) * (2::real) powr of_int (E - 52) \<le> 2 powr of_int (E + 1)"
      using up unfolding v_def q_def .
    show "(2::real) powr of_int E \<le> of_int (rne m) * 2 powr of_int (E - 52)"
      if "- 1022 < E"
      using down [OF that] unfolding v_def q_def .
  qed
qed

lemma b64_round_pos_mono:
  assumes "0 < x" and "x \<le> y"
    and "b64_round x = Fin u" and "b64_round y = Fin w"
  shows "u \<le> w"
proof -
  have ypos: "0 < y" using assms(1,2) by simp
  from b64_round_pos_decomp [OF assms(1)] obtain Ex kx where
    x: "Ex = max \<lfloor>log 2 x\<rfloor> (- 1022)" "kx = rne (x / 2 powr of_int (Ex - 52))"
      "b64_round x =
           (if (2::real) powr 1024 \<le> of_int kx * 2 powr of_int (Ex - 52) then PInf
            else Fin (of_int kx * 2 powr of_int (Ex - 52)))"
      "of_int kx * (2::real) powr of_int (Ex - 52) \<le> 2 powr of_int (Ex + 1)"
    by metis
  from b64_round_pos_decomp [OF ypos] obtain Ey ky where
    y: "Ey = max \<lfloor>log 2 y\<rfloor> (- 1022)" "ky = rne (y / 2 powr of_int (Ey - 52))"
      "b64_round y =
           (if (2::real) powr 1024 \<le> of_int ky * 2 powr of_int (Ey - 52) then PInf
            else Fin (of_int ky * 2 powr of_int (Ey - 52)))"
      "- 1022 < Ey \<Longrightarrow> (2::real) powr of_int Ey \<le> of_int ky * 2 powr of_int (Ey - 52)"
    by metis
  have u: "u = of_int kx * 2 powr of_int (Ex - 52)"
    using x(3) assms(3) by (simp split: if_splits)
  have w: "w = of_int ky * 2 powr of_int (Ey - 52)"
    using y(3) assms(4) by (simp split: if_splits)
  have "log 2 x \<le> log 2 y" using assms(1,2) by simp
  then have "\<lfloor>log 2 x\<rfloor> \<le> \<lfloor>log 2 y\<rfloor>" by (rule floor_mono)
  then have E: "Ex \<le> Ey" unfolding x(1) y(1) by simp
  show ?thesis
  proof (cases "Ex = Ey")
    case True
    have "x / 2 powr of_int (Ey - 52) \<le> y / 2 powr of_int (Ey - 52)"
      using assms(2) by (simp add: divide_right_mono)
    then have "kx \<le> ky" unfolding x(2) y(2) True by (rule rne_mono)
    then have "(of_int kx :: real) \<le> of_int ky" by (simp only: of_int_le_iff)
    then show ?thesis unfolding u w True by (simp add: mult_right_mono)
  next
    case False
    with E have lt: "Ex + 1 \<le> Ey" by simp
    have "- 1022 \<le> Ex" unfolding x(1) by simp
    with lt have "- 1022 < Ey" by simp
    from y(4) [OF this] have "2 powr of_int Ey \<le> w" unfolding w .
    moreover have "(2::real) powr of_int (Ex + 1) \<le> 2 powr of_int Ey"
      using lt by (rule p2_mono)
    moreover have "u \<le> 2 powr of_int (Ex + 1)" using x(4) unfolding u .
    ultimately show ?thesis by linarith
  qed
qed

lemma b64_round_pos_Fin:
  assumes "0 < x" and "b64_finite (b64_round x)"
  shows "\<exists>u. 0 \<le> u \<and> b64_round x = Fin u"
proof (cases "x < 2 powr 1024 - 2 powr 970")
  case True
  with b64_round_pos [OF assms(1)] show ?thesis by blast
next
  case False
  with b64_round_pos [OF assms(1)] have "b64_round x = PInf" by simp
  with assms(2) show ?thesis by (simp add: b64_finite_def)
qed

lemma b64_round_val_nonneg:
  assumes "0 \<le> x"
  shows "0 \<le> b64_val (b64_round x)"
proof (cases "x = 0")
  case True
  then show ?thesis by (simp add: round_0 b64_val_def)
next
  case False
  with assms have pos: "0 < x" by simp
  show ?thesis
  proof (cases "x < 2 powr 1024 - 2 powr 970")
    case True
    with b64_round_pos [OF pos] show ?thesis by (auto simp add: b64_val_def)
  next
    case False
    with b64_round_pos [OF pos] have "b64_round x = PInf" by simp
    then show ?thesis by (simp add: b64_val_def)
  qed
qed

lemma b64_round_val_nonpos:
  assumes "x \<le> 0"
  shows "b64_val (b64_round x) \<le> 0"
proof -
  have "0 \<le> b64_val (b64_round (- x))" using assms by (intro b64_round_val_nonneg) simp
  then show ?thesis using b64_round_minus [of x] by simp
qed

lemma b64_round_val_mono:
  assumes "x \<le> y"
    and "b64_finite (b64_round x)" and "b64_finite (b64_round y)"
  shows "b64_val (b64_round x) \<le> b64_val (b64_round y)"
proof -
  consider (pos) "0 < x" | (mid) "x \<le> 0" "0 \<le> y" | (neg) "y < 0"
    using assms(1) by linarith
  then show ?thesis
  proof cases
    case pos
    then have ypos: "0 < y" using assms(1) by simp
    from b64_round_pos_Fin [OF pos assms(2)] obtain u where u: "b64_round x = Fin u"
      by blast
    from b64_round_pos_Fin [OF ypos assms(3)] obtain w where w: "b64_round y = Fin w"
      by blast
    from b64_round_pos_mono [OF pos assms(1) u w] show ?thesis
      unfolding u w by (simp add: b64_val_def)
  next
    case mid
    from b64_round_val_nonpos [OF mid(1)] b64_round_val_nonneg [OF mid(2)]
    show ?thesis by linarith
  next
    case neg
    then have ypos: "0 < - y" and le: "- y \<le> - x" using assms(1) by simp_all
    have fx: "b64_finite (b64_round (- x))" using assms(2) b64_round_minus [of x] by simp
    have fy: "b64_finite (b64_round (- y))" using assms(3) b64_round_minus [of y] by simp
    from b64_round_pos_Fin [OF ypos fy] obtain u where u: "b64_round (- y) = Fin u"
      by blast
    have xpos: "0 < - x" using ypos le by linarith
    from b64_round_pos_Fin [OF xpos fx] obtain w where w: "b64_round (- x) = Fin w"
      by blast
    from b64_round_pos_mono [OF ypos le u w] have "u \<le> w" .
    moreover have "b64_val (b64_round x) = - w"
      using b64_round_minus [of x] w by (simp add: b64_val_def)
    moreover have "b64_val (b64_round y) = - u"
      using b64_round_minus [of y] u by (simp add: b64_val_def)
    ultimately show ?thesis by simp
  qed
qed

text \<open>Sums of finite operands, and the two edges for a cutoff radius and a fractional
  scale that are not negative.\<close>

lemma b64_add_finite:
  assumes "b64_finite a" and "b64_finite b"
  shows "b64_val (b64_add a b) = b64_val (b64_round (b64_val a + b64_val b)) \<and>
         (b64_finite (b64_add a b) \<longleftrightarrow> b64_finite (b64_round (b64_val a + b64_val b)))"
proof -
  have "a \<noteq> NaN" "b \<noteq> NaN" using assms by (auto simp add: b64_finite_def)
  then show ?thesis using assms
    by (simp add: b64_add_def b64_zero_def b64_val_def b64_finite_def round_0)
qed

lemma b64_add_not_finite:
  assumes "\<not> b64_finite a \<or> \<not> b64_finite b"
  shows "\<not> b64_finite (b64_add a b)"
  using assms by (cases a; cases b) (simp_all add: b64_add_def b64_finite_def)

lemma b64_neg_finite:
  "b64_finite (b64_neg a) = b64_finite a" "b64_val (b64_neg a) = - b64_val a"
  by (cases a; simp add: b64_neg_def b64_finite_def b64_val_def)+

lemma b64_mul_nonneg:
  assumes "0 \<le> c" and "0 \<le> h"
  shows "b64_mul (Fin c) (Fin h) = PInf \<or> (\<exists>p. 0 \<le> p \<and> b64_mul (Fin c) (Fin h) = Fin p)"
proof (cases "c * h = 0")
  case True
  then show ?thesis using assms by (auto simp add: b64_mul_Fin b64_zero_def)
next
  case False
  then have "0 < c * h" using assms by (simp add: less_le)
  then show ?thesis
    using b64_round_pos [of "c * h"] False by (auto simp add: b64_mul_Fin)
qed

lemma edges_b64_ordered:
  assumes "0 \<le> c" and "0 \<le> h"
    and f0: "b64_finite (edge0_b64 x_frac (Fin c) (Fin h))"
    and f1: "b64_finite (edge1_b64 x_frac (Fin c) (Fin h))"
  shows "b64_val (edge0_b64 x_frac (Fin c) (Fin h))
           \<le> b64_val (edge1_b64 x_frac (Fin c) (Fin h))"
proof -
  let ?P = "b64_mul (Fin c) (Fin h)"
  have fx: "b64_finite x_frac" and fp: "b64_finite ?P"
    using f1 b64_add_not_finite [of x_frac ?P] unfolding edge1_b64_def by blast+
  with b64_mul_nonneg [OF assms(1,2)] obtain p where p: "0 \<le> p" "?P = Fin p"
    by (auto simp add: b64_finite_def)
  have fn: "b64_finite (b64_neg ?P)" using fp by (simp add: b64_neg_finite)
  have vp: "b64_val ?P = p" using p(2) by (simp add: b64_val_def)
  note e0 = b64_add_finite [OF fx fn, unfolded b64_neg_finite vp]
  note e1 = b64_add_finite [OF fx fp, unfolded vp]
  have "b64_val (b64_round (b64_val x_frac + - p)) \<le> b64_val (b64_round (b64_val x_frac + p))"
  proof (rule b64_round_val_mono)
    show "b64_val x_frac + - p \<le> b64_val x_frac + p" using p(1) by simp
    show "b64_finite (b64_round (b64_val x_frac + - p))"
      using f0 e0 unfolding edge0_b64_def b64_sub_def by simp
    show "b64_finite (b64_round (b64_val x_frac + p))"
      using f1 e1 unfolding edge1_b64_def by simp
  qed
  then show ?thesis
    using e0 e1 unfolding edge0_b64_def edge1_b64_def b64_sub_def by simp
qed

text \<open>The values that the examples round.\<close>

lemma round_1: "b64_round 1 = Fin 1"
  using b64_round_binade [of 0 1]
  by (simp add: powr_minus rne_def Let_def field_simps)

lemma round_3: "b64_round 3 = Fin 3"
  using b64_round_binade [of 1 3]
  by (simp add: powr_minus rne_def Let_def field_simps)

lemma round_4: "b64_round 4 = Fin 4"
  using b64_round_binade [of 2 4]
  by (simp add: powr_minus rne_def Let_def field_simps)

lemma round_7: "b64_round 7 = Fin 7"
  using b64_round_binade [of 2 7]
  by (simp add: powr_minus rne_def Let_def field_simps)

lemma round_m7: "b64_round (- 7) = Fin (- 7)"
  using b64_round_binade [of 2 "- 7"]
  by (simp add: powr_minus rne_def Let_def field_simps)

lemma round_quarter: "b64_round (1 / 4) = Fin (1 / 4)"
  using b64_round_binade [of "-2" "1 / 4"]
  by (simp add: powr_minus rne_def Let_def field_simps)

lemma round_3quarter: "b64_round (3 / 4) = Fin (3 / 4)"
  using b64_round_binade [of "-1" "3 / 4"]
  by (simp add: powr_minus rne_def Let_def field_simps)

lemma DBL_MIN_pos: "0 < DBL_MIN"
  by (simp add: DBL_MIN_def)

lemma round_DBL_MIN: "b64_round DBL_MIN = Fin DBL_MIN"
  using b64_round_binade [of "-1022" "1 / 2 ^ 1022"]
  by (simp add: DBL_MIN_def powr_minus rne_def Let_def field_simps)

lemma round_7_over_DBL_MIN: "b64_round (7 * 2 ^ 1022) = PInf"
  using b64_round_binade [of 1024 "7 * 2 ^ 1022"]
  by (simp add: powr_minus rne_def Let_def field_simps)

lemma tiny_cutoff_bounds:
  "0 < tiny_cutoff" "tiny_cutoff \<noteq> 0" "tiny_cutoff \<noteq> 1" "1 + tiny_cutoff \<noteq> 0"
  by (simp_all add: tiny_cutoff_def)

lemma round_tiny_cutoff: "b64_round tiny_cutoff = Fin tiny_cutoff"
  using b64_round_binade [of "-60" "1 / 2 ^ 60"]
  by (simp add: tiny_cutoff_def powr_minus rne_def Let_def field_simps)

lemma round_1_minus_tiny: "b64_round (1 - tiny_cutoff) = Fin 1"
  using b64_round_binade [of "-1" "1 - 1 / 2 ^ 60"]
  by (simp add: tiny_cutoff_def powr_minus rne_def Let_def field_simps)

lemma round_1_plus_tiny: "b64_round (1 + tiny_cutoff) = Fin 1"
  using b64_round_binade [of "0" "1 + 1 / 2 ^ 60"]
  by (simp add: tiny_cutoff_def powr_minus rne_def Let_def field_simps)

lemma i32_small: "- 100 \<le> n \<Longrightarrow> n \<le> 100 \<Longrightarrow> i32 n = Some n"
  by (simp add: i32_def INT_MIN_def INT_MAX_def)

lemma c_trunc_of_int: "c_trunc (of_int k) = k"
  by (simp add: c_trunc_def)

subsection \<open>Cutoff radius\<close>



text \<open>The value of \<^verbatim>\<open>prod\<close> for \<open>c = 1\<close> and \<open>log_prec = 0\<close>: the logarithm of 1 is 0 and
  \<open>0 - (0 - 7)\<close> is 7, all exactly.\<close>

lemma gto_rcut_prod_example: "gto_rcut_prod b64_log (Fin 1) (Fin 0) = Fin 7"
proof -
  have a: "b64_sub (Fin 0) (Fin 7) = Fin (- 7)" by (simp add: b64_sub_Fin round_m7)
  have b: "b64_log (b64_fabs (Fin 1)) = Fin 0"
    by (simp add: b64_log_def b64_fabs_def round_0)
  have c: "b64_sub (Fin 0) (Fin (- 7)) = Fin 7" by (simp add: b64_sub_Fin round_7)
  have d: "b64_add (Fin 0) (Fin 7) = Fin 7" by (simp add: b64_add_Fin round_7)
  show ?thesis unfolding gto_rcut_prod_def Let_def a b c d ..
qed

lemma gto_rcut_b64_DBL_MIN:
  "gto_rcut_b64 b64_log (Fin DBL_MIN) 0 (Fin 1) (Fin 0) = PInf"
proof -
  have a: "b64_gt (Fin 7) (Fin 0)" by (simp add: b64_gt_def b64_val_def)
  have q: "7 / DBL_MIN = 7 * 2 ^ 1022" by (simp add: DBL_MIN_def)
  have "b64_div (Fin 7) (Fin DBL_MIN) = b64_round (7 / DBL_MIN)"
    using DBL_MIN_pos by (intro b64_div_Fin) simp_all
  then have b: "b64_div (Fin 7) (Fin DBL_MIN) = PInf"
    by (simp only: q round_7_over_DBL_MIN)
  have c: "b64_sqrt PInf = PInf" by (simp add: b64_sqrt_def)
  show ?thesis unfolding gto_rcut_b64_def Let_def gto_rcut_prod_example using a b c by simp
qed

text \<open>C9, as the code has it over binary64 values. For a finite positive exponent,
  whatever the angular momentum, the coefficient, the log-precision and the logarithm
  of the C library, \<open>gto_rcut\<close> returns either a finite non-negative value or plus
  infinity, never a NaN and never a negative value. It returns plus infinity exactly
  when \<^verbatim>\<open>prod\<close> is plus infinity or the quotient \<^verbatim>\<open>prod / alpha\<close> overflows, that is when
  the exact quotient is at least \<open>2^1024 - 2^970\<close>.\<close>

theorem gto_rcut_b64_range:
  assumes "0 < a"
  shows "((\<exists>r. 0 \<le> r \<and> r < 2 powr 1024 \<and>
             gto_rcut_b64 libm_log (Fin a) l c log_prec = Fin r) \<or>
          gto_rcut_b64 libm_log (Fin a) l c log_prec = PInf) \<and>
         (gto_rcut_b64 libm_log (Fin a) l c log_prec = PInf \<longleftrightarrow>
            gto_rcut_prod libm_log c log_prec = PInf \<or>
            (\<exists>p. gto_rcut_prod libm_log c log_prec = Fin p \<and>
                 2 powr 1024 - 2 powr 970 \<le> p / a))"
proof -
  let ?P = "gto_rcut_prod libm_log c log_prec"
  let ?R = "gto_rcut_b64 libm_log (Fin a) l c log_prec"
  let ?T = "(2::real) powr 1024 - 2 powr 970"
  have Tpos: "0 < ?T" by simp
  consider (inf) "?P = PInf" | (pos) p where "?P = Fin p" "0 < p"
    | (none) "\<not> b64_gt ?P (Fin 0)"
    unfolding b64_gt_zero by blast
  then show ?thesis
  proof cases
    case inf
    then have "?R = PInf"
      using assms
      by (simp add: gto_rcut_b64_def Let_def b64_gt_zero b64_div_PInf b64_sqrt_def)
    with inf show ?thesis by simp
  next
    case pos
    have R: "?R = b64_sqrt (b64_round (p / a))"
      using pos assms by (simp add: gto_rcut_b64_def Let_def b64_gt_zero b64_div_Fin)
    have qpos: "0 < p / a" using pos(2) assms by simp
    show ?thesis
    proof (cases "?T \<le> p / a")
      case True
      with b64_round_pos [OF qpos] have "b64_round (p / a) = PInf" by blast
      then have "?R = PInf" unfolding R by (simp add: b64_sqrt_def)
      with True pos(1) show ?thesis by simp
    next
      case False
      with b64_round_pos [OF qpos] obtain v where
        v: "0 \<le> v" "v < 2 powr 1024" "b64_round (p / a) = Fin v" by auto
      from b64_sqrt_finite [OF v(1,2)] obtain r where
        r: "0 \<le> r" "r < 2 powr 1024" "b64_sqrt (Fin v) = Fin r" by blast
      have "?R = Fin r" unfolding R v(3) r(3) ..
      with r False pos(1) show ?thesis by simp
    qed
  next
    case none
    then have R: "?R = Fin 0" by (simp add: gto_rcut_b64_def Let_def)
    have "?P \<noteq> PInf" using none unfolding b64_gt_zero by blast
    moreover have "\<not> ?T \<le> p / a" if "?P = Fin p" for p
    proof -
      from none that have "p \<le> 0" unfolding b64_gt_zero by auto
      then have "p / a \<le> 0" using assms by (simp add: divide_nonpos_pos)
      with Tpos show ?thesis by linarith
    qed
    ultimately show ?thesis using R by auto
  qed
qed

theorem gto_rcut_b64_range_witness:
  "(0::real) < 1 \<and>
   ((\<exists>r. 0 \<le> r \<and> r < 2 powr 1024 \<and>
        gto_rcut_b64 b64_log (Fin 1) 0 (Fin 1) (Fin 0) = Fin r) \<or>
    gto_rcut_b64 b64_log (Fin 1) 0 (Fin 1) (Fin 0) = PInf) \<and>
   gto_rcut_b64 b64_log (Fin 1) 0 (Fin 1) (Fin 0) \<noteq> PInf"
  using gto_rcut_b64_range [of 1 b64_log 0 "Fin 1" "Fin 0"]
  by (auto simp add: gto_rcut_prod_example)

text \<open>C9, as the spec states it, fails: the exponent \<open>2^-1022\<close> is a positive \<^verbatim>\<open>double\<close>,
  the coefficient 1 is not zero and the log-precision 0 is finite, yet \<^verbatim>\<open>prod\<close> is 7,
  the quotient \<open>7 * 2^1022\<close> overflows and the function returns plus infinity.\<close>

theorem gto_rcut_b64_overflow_counterexample:
  "0 < DBL_MIN \<and> is_b64 (Fin DBL_MIN) \<and> is_b64 (Fin 1) \<and> is_b64 (Fin 0) \<and>
   gto_rcut_prod b64_log (Fin 1) (Fin 0) = Fin 7 \<and>
   gto_rcut_b64 b64_log (Fin DBL_MIN) 0 (Fin 1) (Fin 0) = PInf"
  using gto_rcut_b64_DBL_MIN DBL_MIN_pos gto_rcut_prod_example
  by (simp add: is_b64_def round_DBL_MIN round_1 round_0)

subsection \<open>The non-orthogonal variant fails fast\<close>

text \<open>C6: for every input \<open>GTOnumint_3d_nonorth\<close> ends the process with exit status 1
  after reporting that it is not available; it never returns and the store, hence
  every output buffer, is as it was at the call.\<close>

theorem GTOnumint_3d_nonorth_fatal:
  "GTOnumint_3d_nonorth out floorl topl ai aj fac log_prec dimension a b mesh weights
       cache m =
     Exits 1 (''GTOnumint_3d_nonorth not available'' @ [CHR 0x0A]) m \<and>
   (\<forall>m'. GTOnumint_3d_nonorth out floorl topl ai aj fac log_prec dimension a b mesh
       weights cache m \<noteq> Returns m')"
  by (simp add: GTOnumint_3d_nonorth_def)

subsection \<open>Image range\<close>

text \<open>A conversion that succeeds returns the floor, or the ceiling, of a finite
  edge.\<close>

lemma b64_to_int_floor:
  assumes "b64_to_int (b64_floor e) = Some k"
  shows "b64_finite e \<and> k = \<lfloor>b64_val e\<rfloor>"
  using assms
  by (cases e)
    (simp_all add: b64_to_int_def b64_floor_def b64_finite_def b64_val_def c_trunc_of_int
      i32_def split: if_splits)

lemma b64_to_int_ceil:
  assumes "b64_to_int (b64_ceil e) = Some k"
  shows "b64_finite e \<and> k = \<lceil>b64_val e\<rceil>"
  using assms
  by (cases e)
    (simp_all add: b64_to_int_def b64_ceil_def b64_finite_def b64_val_def c_trunc_of_int
      i32_def split: if_splits)

lemma cartesian_components_slices_b64_img:
  assumes "cartesian_components_slices_b64 periodic nx_per_cell x_frac cutoff heights_inv
             = Some s"
  shows "(if periodic then b64_to_int (b64_floor (edge0_b64 x_frac cutoff heights_inv))
          else Some 0) = Some (fst (fst s)) \<and>
         (if periodic then b64_to_int (b64_ceil (edge1_b64 x_frac cutoff heights_inv))
          else Some 1) = Some (snd (fst s))"
  using assms
  unfolding cartesian_components_slices_b64_def Let_def
  by (auto simp add: bind_eq_Some_conv)

text \<open>An ordinary call: \<open>x_frac = 1/2\<close>, \<open>cutoff = 1/4\<close>, \<open>heights_inv = 1\<close> and four grid
  points per cell. The edges are \<open>1/4\<close> and \<open>3/4\<close>, exactly.\<close>

lemma edges_b64_example:
  "edge0_b64 (Fin (1 / 2)) (Fin (1 / 4)) (Fin 1) = Fin (1 / 4)"
  "edge1_b64 (Fin (1 / 2)) (Fin (1 / 4)) (Fin 1) = Fin (3 / 4)"
  by (simp_all add: edge0_b64_def edge1_b64_def b64_mul_Fin b64_sub_Fin b64_add_Fin
      round_quarter round_3quarter)

lemma cartesian_components_slices_b64_example:
  "cartesian_components_slices_b64 True 4 (Fin (1 / 2)) (Fin (1 / 4)) (Fin 1)
     = Some ((0, 1), (1, 3))"
  unfolding cartesian_components_slices_b64_def Let_def edges_b64_example
  by (simp add: b64_floor_def b64_ceil_def b64_to_int_def b64_of_int_def b64_mul_Fin
      round_1 round_3 round_4 c_trunc_def i32_small grid_in_cell_def i32_mul_def i32_add_def
      i32_mod_def signed_divide_int_def signed_modulo_int_def)

lemma cartesian_components_nimg_example:
  "cartesian_components_nimg_b64 True 4 (Fin (1 / 2)) (Fin (1 / 4)) (Fin 1) = Some 1"
  unfolding cartesian_components_nimg_b64_def cartesian_components_slices_b64_example
  by (simp add: i32_sub_def i32_small)

text \<open>The call with the tiny cutoff: \<open>1 - 2^-60\<close> and \<open>1 + 2^-60\<close> both round to 1.\<close>

lemma edges_b64_tiny_cutoff:
  "edge0_b64 (Fin 1) (Fin tiny_cutoff) (Fin 1) = Fin 1"
  "edge1_b64 (Fin 1) (Fin tiny_cutoff) (Fin 1) = Fin 1"
  by (simp_all add: edge0_b64_def edge1_b64_def b64_mul_Fin b64_sub_Fin b64_add_Fin
      round_tiny_cutoff round_1_minus_tiny round_1_plus_tiny tiny_cutoff_bounds)

lemma cartesian_components_slices_b64_tiny_cutoff:
  "cartesian_components_slices_b64 True 4 (Fin 1) (Fin tiny_cutoff) (Fin 1)
     = Some ((1, 1), (0, 0))"
  unfolding cartesian_components_slices_b64_def Let_def edges_b64_tiny_cutoff
  by (simp add: b64_floor_def b64_ceil_def b64_to_int_def b64_of_int_def b64_mul_Fin
      round_4 c_trunc_def i32_small grid_in_cell_def i32_mul_def i32_add_def
      i32_mod_def signed_divide_int_def signed_modulo_int_def)

text \<open>C7, as the code has it over binary64 values and 32-bit integers. Whenever the
  integer operations of the call are defined: without periodicity the image count is
  1; with periodicity the image count is at least 1 when the two computed edges differ
  (\<^verbatim>\<open>edge0 < edge1\<close>); when the computed edges are in order (\<^verbatim>\<open>edge0 <= edge1\<close>) the image
  count is not negative, and it is 0 exactly when the two computed edges are one and the
  same integer; and the computed edges are in order whenever the cutoff radius and the
  fractional scale are not negative. So, for such a cutoff radius and scale, the image
  range is empty exactly when rounding leaves both edges at one integer.\<close>

theorem cartesian_components_nimg_b64_cases:
  assumes "cartesian_components_nimg_b64 periodic nx_per_cell x_frac cutoff heights_inv
             = Some n"
  shows "(\<not> periodic \<longrightarrow> n = 1) \<and>
         (periodic \<longrightarrow>
            b64_gt (edge1_b64 x_frac cutoff heights_inv)
              (edge0_b64 x_frac cutoff heights_inv) \<longrightarrow> 1 \<le> n) \<and>
         (periodic \<longrightarrow>
            \<not> b64_gt (edge0_b64 x_frac cutoff heights_inv)
              (edge1_b64 x_frac cutoff heights_inv) \<longrightarrow>
            0 \<le> n \<and>
            (n = 0 \<longleftrightarrow>
               (\<exists>k. b64_val (edge0_b64 x_frac cutoff heights_inv) = of_int k \<and>
                    b64_val (edge1_b64 x_frac cutoff heights_inv) = of_int k))) \<and>
         (periodic \<longrightarrow>
            (\<exists>c h. cutoff = Fin c \<and> heights_inv = Fin h \<and> 0 \<le> c \<and> 0 \<le> h) \<longrightarrow>
            \<not> b64_gt (edge0_b64 x_frac cutoff heights_inv)
              (edge1_b64 x_frac cutoff heights_inv))"
proof -
  let ?e0 = "edge0_b64 x_frac cutoff heights_inv"
  let ?e1 = "edge1_b64 x_frac cutoff heights_inv"
  from assms obtain s where
    s: "cartesian_components_slices_b64 periodic nx_per_cell x_frac cutoff heights_inv
          = Some s"
    and "i32_sub (snd (fst s)) (fst (fst s)) = Some n"
    by (auto simp add: cartesian_components_nimg_b64_def bind_eq_Some_conv)
  then have n: "n = snd (fst s) - fst (fst s)"
    by (simp add: i32_sub_def i32_def split: if_splits)
  note img = cartesian_components_slices_b64_img [OF s]
  have a: "n = 1" if "\<not> periodic"
    using img that n by simp
  have fl: "b64_finite ?e0 \<and> fst (fst s) = \<lfloor>b64_val ?e0\<rfloor>" if periodic
    using img that by (intro b64_to_int_floor) simp
  have ce: "b64_finite ?e1 \<and> snd (fst s) = \<lceil>b64_val ?e1\<rceil>" if periodic
    using img that by (intro b64_to_int_ceil) simp
  have nn: "n = \<lceil>b64_val ?e1\<rceil> - \<lfloor>b64_val ?e0\<rfloor>" if periodic
    using fl ce that n by simp
  have b: "1 \<le> n" if periodic and gt: "b64_gt ?e1 ?e0"
  proof -
    from fl ce that(1) gt have lt: "b64_val ?e0 < b64_val ?e1"
      by (simp add: b64_gt_finite)
    have "of_int \<lfloor>b64_val ?e0\<rfloor> \<le> b64_val ?e0" by simp
    moreover have "b64_val ?e1 \<le> of_int \<lceil>b64_val ?e1\<rceil>" by simp
    ultimately have "(of_int \<lfloor>b64_val ?e0\<rfloor> :: real) < of_int \<lceil>b64_val ?e1\<rceil>"
      using lt by linarith
    then have "\<lfloor>b64_val ?e0\<rfloor> < \<lceil>b64_val ?e1\<rceil>" by (simp only: of_int_less_iff)
    with nn that(1) show ?thesis by simp
  qed
  have c: "0 \<le> n \<and>
            (n = 0 \<longleftrightarrow> (\<exists>k. b64_val ?e0 = of_int k \<and> b64_val ?e1 = of_int k))"
    if periodic and ngt: "\<not> b64_gt ?e0 ?e1"
  proof -
    from fl ce that(1) ngt have le: "b64_val ?e0 \<le> b64_val ?e1"
      by (simp add: b64_gt_finite)
    have f: "of_int \<lfloor>b64_val ?e0\<rfloor> \<le> b64_val ?e0" by simp
    have g: "b64_val ?e1 \<le> of_int \<lceil>b64_val ?e1\<rceil>" by simp
    from f g le have "(of_int \<lfloor>b64_val ?e0\<rfloor> :: real) \<le> of_int \<lceil>b64_val ?e1\<rceil>"
      by linarith
    then have fc: "\<lfloor>b64_val ?e0\<rfloor> \<le> \<lceil>b64_val ?e1\<rceil>" by (simp only: of_int_le_iff)
    then have n0: "0 \<le> n" using nn that(1) by simp
    have "\<exists>k. b64_val ?e0 = of_int k \<and> b64_val ?e1 = of_int k" if "n = 0"
    proof -
      from that nn \<open>periodic\<close> have eq: "\<lceil>b64_val ?e1\<rceil> = \<lfloor>b64_val ?e0\<rfloor>" by simp
      from f g le have "b64_val ?e0 = of_int \<lfloor>b64_val ?e0\<rfloor>"
        and "b64_val ?e1 = of_int \<lfloor>b64_val ?e0\<rfloor>"
        unfolding eq by linarith+
      then show ?thesis by blast
    qed
    moreover have "n = 0" if "b64_val ?e0 = of_int k" and "b64_val ?e1 = of_int k" for k
      using nn \<open>periodic\<close> that by simp
    ultimately show ?thesis using n0 by blast
  qed
  have d: "\<not> b64_gt ?e0 ?e1"
    if periodic and "cutoff = Fin cc" and "heights_inv = Fin h" and "0 \<le> cc" and "0 \<le> h"
    for cc h
  proof -
    from fl ce that(1) have f0: "b64_finite ?e0" and f1: "b64_finite ?e1" by simp_all
    from edges_b64_ordered [OF that(4,5), of x_frac] f0 f1
    have "b64_val ?e0 \<le> b64_val ?e1" unfolding that(2,3) by simp
    then show ?thesis using f0 f1 by (simp add: b64_gt_finite)
  qed
  from a b c d show ?thesis by blast
qed

theorem cartesian_components_nimg_b64_cases_witness:
  "cartesian_components_nimg_b64 True 4 (Fin (1 / 2)) (Fin (1 / 4)) (Fin 1) = Some 1 \<and>
   b64_gt (edge1_b64 (Fin (1 / 2)) (Fin (1 / 4)) (Fin 1))
     (edge0_b64 (Fin (1 / 2)) (Fin (1 / 4)) (Fin 1)) \<and>
   \<not> b64_gt (edge0_b64 (Fin (1 / 2)) (Fin (1 / 4)) (Fin 1))
     (edge1_b64 (Fin (1 / 2)) (Fin (1 / 4)) (Fin 1)) \<and>
   (0::real) \<le> 1 / 4 \<and> (0::real) \<le> 1 \<and>
   \<not> (\<exists>k. b64_val (edge0_b64 (Fin (1 / 2)) (Fin (1 / 4)) (Fin 1)) = of_int k \<and>
           b64_val (edge1_b64 (Fin (1 / 2)) (Fin (1 / 4)) (Fin 1)) = of_int k)"
  using cartesian_components_nimg_b64_cases [OF cartesian_components_nimg_example]
    cartesian_components_nimg_example
  by (simp add: edges_b64_example b64_gt_def b64_val_def)

text \<open>C7, as the spec states it, fails: with periodicity, \<open>x_frac = 1\<close>,
  \<open>heights_inv = 1\<close> and the positive cutoff radius \<open>2^-60\<close>, all three \<^verbatim>\<open>double\<close> values,
  both edges are 1, so \<^verbatim>\<open>nimg0 = nimg1 = 1\<close> and the image count is 0.\<close>

theorem cartesian_components_nimg_b64_counterexample:
  "is_b64 (Fin 1) \<and> is_b64 (Fin tiny_cutoff) \<and>
   b64_gt (Fin 1) (Fin 0) \<and> b64_gt (Fin tiny_cutoff) (Fin 0) \<and>
   cartesian_components_slices_b64 True 4 (Fin 1) (Fin tiny_cutoff) (Fin 1)
     = Some ((1, 1), (0, 0)) \<and>
   cartesian_components_nimg_b64 True 4 (Fin 1) (Fin tiny_cutoff) (Fin 1) = Some 0"
  unfolding cartesian_components_nimg_b64_def cartesian_components_slices_b64_tiny_cutoff
  by (simp add: is_b64_def round_1 round_tiny_cutoff b64_gt_def b64_val_def i32_sub_def
      i32_small tiny_cutoff_bounds)

subsection \<open>Order of the Cartesian integral buffer\<close>

lemma number_from_append:
  "number_from n (xs @ ys) = number_from n xs @ number_from (n + int (length xs)) ys"
  by (induction xs arbitrary: n) (simp_all add: add.assoc)

lemma rev_upto_rec: "0 \<le> k \<Longrightarrow> rev [0..k] = k # rev [0..k - 1]"
  by (simp add: upto_rec2)

lemma orth_z_ly_loop_fold:
  "orth_z_ly_loop body l lx ly (n, s) =
     (n + int (length (rev [0..ly])),
      fold (\<lambda>(k, a, b, c). body k a b c)
        (number_from n (map (\<lambda>ly. (lx, ly, l - lx - ly)) (rev [0..ly]))) s)"
proof (induction body l lx ly "(n, s)" arbitrary: n s rule: orth_z_ly_loop.induct)
  case (1 body l lx ly n s)
  show ?case
  proof (cases "0 \<le> ly")
    case True
    then show ?thesis
      using "1" by (subst orth_z_ly_loop.simps) (simp add: rev_upto_rec)
  next
    case False
    then show ?thesis
      by (subst orth_z_ly_loop.simps) simp
  qed
qed

lemma orth_z_lx_loop_fold:
  "orth_z_lx_loop body l lx (n, s) =
     (n + int (length (concat (map (cart_row l) (rev [0..lx])))),
      fold (\<lambda>(k, a, b, c). body k a b c)
        (number_from n (concat (map (cart_row l) (rev [0..lx])))) s)"
proof (induction body l lx "(n, s)" arbitrary: n s rule: orth_z_lx_loop.induct)
  case (1 body l lx n s)
  show ?case
  proof (cases "0 \<le> lx")
    case True
    then show ?thesis
      using "1"
      by (subst orth_z_lx_loop.simps)
        (simp add: rev_upto_rec orth_z_ly_loop_fold number_from_append cart_row_def)
  next
    case False
    then show ?thesis
      by (subst orth_z_lx_loop.simps) simp
  qed
qed

lemma orth_z_l_loop_fold:
  "orth_z_l_loop body l topl (n, s) =
     (n + int (length (cart_triples l topl)),
      fold (\<lambda>(k, a, b, c). body k a b c) (number_from n (cart_triples l topl)) s)"
proof (induction body l topl "(n, s)" arbitrary: n s rule: orth_z_l_loop.induct)
  case (1 body l topl n s)
  show ?case
  proof (cases "l \<le> topl")
    case True
    then show ?thesis
      using "1"
      by (subst orth_z_l_loop.simps)
        (simp add: upto_rec1 [of l topl] orth_z_lx_loop_fold number_from_append
           cart_shell_def cart_triples_def)
  next
    case False
    then show ?thesis
      by (subst orth_z_l_loop.simps) (simp add: cart_triples_def)
  qed
qed

lemma orth_z_store_eq:
  "orth_z_store out mesh l1 nimgz nz0 nz1 zs_exp weightz n lx ly lz m =
     m(out + n :=
         orth_z_val mesh l1 zs_exp weightz
           (if nimgz = 1 then nz0 else 0) (if nimgz = 1 then nz1 else mesh ! 2) lx ly lz m)"
  by (simp add: orth_z_store_def)

lemma cart_triples_example:
  "cart_triples 1 2 =
     [(1, 0, 0), (0, 1, 0), (0, 0, 1),
      (2, 0, 0), (1, 1, 0), (1, 0, 1), (0, 2, 0), (0, 1, 1), (0, 0, 2)]"
  by (simp add: cart_triples_def cart_shell_def cart_row_def upto_rec1)

text \<open>The result of \<open>GTOnumint_3d_orth\<close> is the store left by the generators and the x
  and y contractions, followed by the stores of the z stage to \<open>out\<close>.\<close>

lemma GTOnumint_3d_orth_stores:
  "\<exists>m5 i0 i1 zs_exp weightz.
     GTOnumint_3d_orth out floorl topl ai aj fac log_prec dimension a b mesh weights envs
       cache m =
     fold (\<lambda>(n, lx, ly, lz) m'.
             m'(out + n := orth_z_val mesh (topl + 1) zs_exp weightz i0 i1 lx ly lz m'))
       (number_from 0 (cart_triples floorl topl)) m5"
  unfolding GTOnumint_3d_orth_def Let_def split_beta orth_z_stage_def orth_z_l_loop_fold
    orth_z_store_eq snd_conv
  by (intro exI) (rule refl)

text \<open>C8: for every \<open>floorl\<close> and \<open>topl\<close>, in both branches of the z stage (the only
  part of \<open>GTOnumint_3d_orth\<close> that stores to \<open>out\<close>), the stores go to \<open>out[0]\<close>,
  \<open>out[1]\<close>, ... in this order, the store number \<open>n\<close> being the dot product of the
  \<open>n\<close>-th triple \<open>(lx, ly, lz)\<close> of the order: total \<open>l\<close> ascending from \<open>floorl\<close> to \<open>topl\<close>,
  then \<open>lx\<close> descending from \<open>l\<close> to 0, then \<open>ly\<close> descending from \<open>l - lx\<close> to 0, with
  \<open>lz = l - lx - ly\<close>; the number of stores is the number of such triples. So
  \<open>GTOnumint_3d_orth\<close> ends with exactly these stores.\<close>

theorem orth_z_stage_order:
  "orth_z_stage out floorl topl mesh nimgz nz0 nz1 zs_exp weightz m =
     (int (length (cart_triples floorl topl)),
      fold (\<lambda>(n, lx, ly, lz) m'.
              m'(out + n :=
                   orth_z_val mesh (topl + 1) zs_exp weightz
                     (if nimgz = 1 then nz0 else 0) (if nimgz = 1 then nz1 else mesh ! 2)
                     lx ly lz m'))
        (number_from 0 (cart_triples floorl topl)) m) \<and>
   (\<exists>m5 i0 i1 zs_exp' weightz'.
      GTOnumint_3d_orth out floorl topl ai aj fac log_prec dimension a b mesh weights envs
        cache m =
      fold (\<lambda>(n, lx, ly, lz) m'.
              m'(out + n := orth_z_val mesh (topl + 1) zs_exp' weightz' i0 i1 lx ly lz m'))
        (number_from 0 (cart_triples floorl topl)) m5)"
proof -
  have "orth_z_stage out floorl topl mesh nimgz nz0 nz1 zs_exp weightz m =
     (int (length (cart_triples floorl topl)),
      fold (\<lambda>(n, lx, ly, lz) m'.
              m'(out + n :=
                   orth_z_val mesh (topl + 1) zs_exp weightz
                     (if nimgz = 1 then nz0 else 0) (if nimgz = 1 then nz1 else mesh ! 2)
                     lx ly lz m'))
        (number_from 0 (cart_triples floorl topl)) m)"
    unfolding orth_z_stage_def orth_z_l_loop_fold orth_z_store_eq by simp
  then show ?thesis using GTOnumint_3d_orth_stores by blast
qed

subsection \<open>Contraction of the y axis over the full range\<close>

text \<open>The matrix product stores \<open>M * N\<close> values, one per cell of the block that starts
  at \<open>C\<close> (for \<open>ldc = M\<close>), and nothing else.\<close>

lemma fold_fold_product:
  "fold (\<lambda>j. fold (\<lambda>i. F i j) Is) Js m = fold (\<lambda>(j, i). F i j) (List.product Js Is) m"
  by (induction Js arbitrary: m) (simp_all add: fold_map comp_def)

lemma dgemm_NN_flat:
  assumes "0 \<le> M" "0 \<le> N" "0 \<le> K"
  shows "dgemm_NN M N K alpha A lda B ldb beta C ldc m =
           fold (\<lambda>ji m'. m'(C + snd ji + fst ji * ldc :=
                   alpha * (\<Sum>k\<leftarrow>[0..K - 1]. m (A + snd ji + k * lda) * m (B + k + fst ji * ldb))
                   + beta * m (C + snd ji + fst ji * ldc)))
             (List.product [0..N - 1] [0..M - 1]) m"
  using assms by (simp add: dgemm_NN_def fold_fold_product split_def)

lemma cell_inj:
  fixes i j i' j' M :: int
  assumes "0 \<le> i" "i < M" "0 \<le> i'" "i' < M" "i + j * M = i' + j' * M"
  shows "i = i' \<and> j = j'"
proof -
  have "(i + j * M) mod M = i mod M" "(i' + j' * M) mod M = i' mod M"
    by simp_all
  moreover have "i mod M = i" "i' mod M = i'"
    using assms by simp_all
  ultimately have i: "i = i'" using assms(5) by simp
  then have "j * M = j' * M" using assms(5) by simp
  moreover have "M \<noteq> 0" using assms by auto
  ultimately show ?thesis using i by simp
qed

lemma cell_bound:
  fixes i j M N :: int
  assumes "0 \<le> i" "i < M" "0 \<le> j" "j < N"
  shows "0 \<le> i + j * M" "i + j * M < M * N"
proof -
  show "0 \<le> i + j * M" using assms by simp
  have "i + j * M < M + j * M" using assms by simp
  also have "\<dots> = (j + 1) * M" by (simp add: algebra_simps)
  also have "\<dots> \<le> N * M" using assms by (intro mult_right_mono) simp_all
  finally show "i + j * M < M * N" by (simp add: mult.commute)
qed

lemma dgemm_NN_hit:
  assumes "0 \<le> i" "i < M" "0 \<le> j" "j < N" "0 \<le> K"
  shows "dgemm_NN M N K alpha A lda B ldb beta C M m (C + i + j * M) =
           alpha * (\<Sum>k\<leftarrow>[0..K - 1]. m (A + i + k * lda) * m (B + k + j * ldb))
           + beta * m (C + i + j * M)"
proof -
  let ?g = "\<lambda>ji. C + snd ji + fst ji * M"
  let ?w = "\<lambda>ji. alpha * (\<Sum>k\<leftarrow>[0..K - 1]. m (A + snd ji + k * lda) * m (B + k + fst ji * ldb))
                   + beta * m (C + snd ji + fst ji * M)"
  let ?xs = "List.product [0..N - 1] [0..M - 1]"
  have d: "distinct ?xs" by (simp add: distinct_product)
  have inj: "inj_on ?g (set ?xs)"
  proof (rule inj_onI)
    fix x y assume "x \<in> set ?xs" "y \<in> set ?xs" "?g x = ?g y"
    then have "snd x = snd y \<and> fst x = fst y"
      using cell_inj [of "snd x" M "snd y" "fst x" "fst y"] by auto
    then show "x = y" by (simp add: prod_eq_iff)
  qed
  have mem: "(j, i) \<in> set ?xs" using assms by simp
  have "dgemm_NN M N K alpha A lda B ldb beta C M m = fold (\<lambda>ji m'. m'(?g ji := ?w ji)) ?xs m"
    using assms by (intro dgemm_NN_flat) simp_all
  then have "dgemm_NN M N K alpha A lda B ldb beta C M m (?g (j, i)) = ?w (j, i)"
    using fold_upd_hit [OF d inj mem, where w = ?w and m = m] by simp
  then show ?thesis by simp
qed

lemma dgemm_NN_miss:
  assumes "\<not> (C \<le> p \<and> p < C + M * N)"
  shows "dgemm_NN M N K alpha A lda B ldb beta C M m p = m p"
proof (cases "M < 0 \<or> N < 0 \<or> K < 0")
  case True
  then show ?thesis by (simp add: dgemm_NN_def)
next
  case False
  let ?g = "\<lambda>ji. C + snd ji + fst ji * M"
  let ?w = "\<lambda>ji. alpha * (\<Sum>k\<leftarrow>[0..K - 1]. m (A + snd ji + k * lda) * m (B + k + fst ji * ldb))
                   + beta * m (C + snd ji + fst ji * M)"
  let ?xs = "List.product [0..N - 1] [0..M - 1]"
  have other: "\<forall>ji \<in> set ?xs. ?g ji \<noteq> p"
  proof
    fix ji assume "ji \<in> set ?xs"
    then have "0 \<le> snd ji + fst ji * M" "snd ji + fst ji * M < M * N"
      using cell_bound [of "snd ji" M "fst ji" N] by auto
    then show "?g ji \<noteq> p" using assms by auto
  qed
  have "dgemm_NN M N K alpha A lda B ldb beta C M m = fold (\<lambda>ji m'. m'(?g ji := ?w ji)) ?xs m"
    using False by (intro dgemm_NN_flat) simp_all
  then show ?thesis
    using fold_upd_other [OF other, where v = ?w and m = m] by simp
qed


text \<open>What the full-range branch of the y stage computes, for every input of that branch
  whose \<open>weightz\<close> buffer lies after the buffers it reads (as in \<open>orth_layout\<close>): the
  full-range contraction of the array that starts at \<open>ys_exp + ny0\<close>. It is the
  contraction of the claim when \<open>ny0 = 0\<close>.\<close>

lemma stride_blocks_disjoint:
  fixes N k a X base :: int
  assumes "0 < N" "a \<noteq> k" "base + k * N \<le> X" "X < base + k * N + N"
  shows "\<not> (base + a * N \<le> X \<and> X < base + a * N + N)"
proof (cases "a < k")
  case True
  then have "a + 1 \<le> k" by simp
  then have "(a + 1) * N \<le> k * N" using assms(1) by (intro mult_right_mono) simp_all
  then have "a * N + N \<le> k * N" by (simp add: algebra_simps)
  then show ?thesis using assms by simp
next
  case False
  then have "k + 1 \<le> a" using assms(2) by simp
  then have "(k + 1) * N \<le> a * N" using assms(1) by (intro mult_right_mono) simp_all
  then have "k * N + N \<le> a * N" by (simp add: algebra_simps)
  then show ?thesis using assms by simp
qed

lemma y_fold_below:
  fixes Yc L1 :: int
  assumes "0 < Yc" "0 < L1" "\<forall>x \<in> set lxs. 0 \<le> x" "p < Z"
  shows "fold (\<lambda>x. dgemm_NN Yc L1 M1 1 (WY + x * XC) Yc YS M1 0 (Z + x * L1 * Yc) Yc) lxs m p
           = m p"
  using assms(3)
proof (induction lxs arbitrary: m)
  case Nil
  then show ?case by simp
next
  case (Cons x lxs)
  have "0 \<le> x * L1 * Yc" using Cons.prems assms(1,2) by simp
  then have "\<not> (Z + x * L1 * Yc \<le> p \<and> p < Z + x * L1 * Yc + Yc * L1)"
    using assms(4) by simp
  then have "dgemm_NN Yc L1 M1 1 (WY + x * XC) Yc YS M1 0 (Z + x * L1 * Yc) Yc m p = m p"
    by (rule dgemm_NN_miss)
  then show ?case using Cons by simp
qed

lemma y_fold_other_blocks:
  fixes Yc L1 :: int
  assumes "0 < Yc" "0 < L1" "lx \<notin> set lxs"
    and "Z + lx * (L1 * Yc) \<le> p" "p < Z + lx * (L1 * Yc) + L1 * Yc"
  shows "fold (\<lambda>x. dgemm_NN Yc L1 M1 1 (WY + x * XC) Yc YS M1 0 (Z + x * L1 * Yc) Yc) lxs m p
           = m p"
  using assms(3)
proof (induction lxs arbitrary: m)
  case Nil
  then show ?case by simp
next
  case (Cons x lxs)
  have N: "0 < L1 * Yc" using assms(1,2) by simp
  have "x \<noteq> lx" using Cons.prems by auto
  then have "\<not> (Z + x * (L1 * Yc) \<le> p \<and> p < Z + x * (L1 * Yc) + L1 * Yc)"
    using stride_blocks_disjoint [OF N _ assms(4) assms(5)] by blast
  then have "\<not> (Z + x * L1 * Yc \<le> p \<and> p < Z + x * L1 * Yc + Yc * L1)"
    by (simp add: mult.assoc mult.commute [of Yc L1])
  then have "dgemm_NN Yc L1 M1 1 (WY + x * XC) Yc YS M1 0 (Z + x * L1 * Yc) Yc m p = m p"
    by (rule dgemm_NN_miss)
  then show ?case using Cons by simp
qed

lemma y_fold_block:
  fixes Yc L1 M1 :: int
  assumes pos: "0 < Yc" "0 < L1" "0 \<le> M1"
    and lxs: "distinct lxs" "\<forall>x \<in> set lxs. 0 \<le> x" "lx \<in> set lxs"
    and cell: "0 \<le> iz" "iz < Yc" "0 \<le> ly" "ly < L1"
    and rA: "\<And>k. 0 \<le> k \<Longrightarrow> k < M1 \<Longrightarrow> WY + lx * XC + iz + k * Yc < Z"
    and rB: "\<And>k. 0 \<le> k \<Longrightarrow> k < M1 \<Longrightarrow> YS + k + ly * M1 < Z"
  shows "fold (\<lambda>x. dgemm_NN Yc L1 M1 1 (WY + x * XC) Yc YS M1 0 (Z + x * L1 * Yc) Yc) lxs m
           (Z + lx * L1 * Yc + iz + ly * Yc) =
         (\<Sum>k\<leftarrow>[0..M1 - 1]. m (WY + lx * XC + iz + k * Yc) * m (YS + k + ly * M1))"
  using lxs
proof (induction lxs arbitrary: m)
  case Nil
  then show ?case by simp
next
  case (Cons x lxs)
  let ?T = "\<lambda>x. dgemm_NN Yc L1 M1 1 (WY + x * XC) Yc YS M1 0 (Z + x * L1 * Yc) Yc"
  let ?p = "Z + lx * L1 * Yc + iz + ly * Yc"
  let ?S = "\<lambda>m. (\<Sum>k\<leftarrow>[0..M1 - 1]. m (WY + lx * XC + iz + k * Yc) * m (YS + k + ly * M1))"
  have cb: "0 \<le> iz + ly * Yc" "iz + ly * Yc < Yc * L1"
    using cell_bound [of iz Yc ly L1] cell by simp_all
  have inblock: "Z + lx * (L1 * Yc) \<le> ?p" "?p < Z + lx * (L1 * Yc) + L1 * Yc"
    using cb by (simp_all add: mult.assoc mult.commute [of Yc L1])
  show ?case
  proof (cases "x = lx")
    case True
    then have notin: "lx \<notin> set lxs" using Cons.prems by simp
    have "fold ?T (x # lxs) m ?p = fold ?T lxs (?T lx m) ?p" using True by simp
    also have "\<dots> = ?T lx m ?p"
      by (rule y_fold_other_blocks [OF pos(1) pos(2) notin inblock])
    also have "\<dots> = ?S m"
      using dgemm_NN_hit [of iz Yc ly L1 M1 1 "WY + lx * XC" Yc YS M1 0 "Z + lx * L1 * Yc" m]
        cell pos
      by (simp add: add.assoc)
    finally show ?thesis .
  next
    case False
    then have mem: "lx \<in> set lxs" using Cons.prems by simp
    have x0: "0 \<le> x * L1 * Yc" using Cons.prems pos by simp
    have keep: "?T x m r = m r" if "r < Z" for r
    proof -
      have "\<not> (Z + x * L1 * Yc \<le> r \<and> r < Z + x * L1 * Yc + Yc * L1)"
        using that x0 by simp
      then show ?thesis by (rule dgemm_NN_miss)
    qed
    have "fold ?T (x # lxs) m ?p = fold ?T lxs (?T x m) ?p" by simp
    also have "\<dots> = ?S (?T x m)"
      using Cons.IH [of "?T x m"] Cons.prems mem by simp
    also have "\<dots> = ?S m"
    proof -
      have "map (\<lambda>k. ?T x m (WY + lx * XC + iz + k * Yc) * ?T x m (YS + k + ly * M1))
              [0..M1 - 1] =
            map (\<lambda>k. m (WY + lx * XC + iz + k * Yc) * m (YS + k + ly * M1)) [0..M1 - 1]"
        by (rule map_cong) (simp_all add: keep rA rB)
      then show ?thesis by (rule arg_cong [where f = sum_list])
    qed
    finally show ?thesis .
  qed
qed


lemma orth_y_stage_full_range:
  assumes branch: "nimgy \<noteq> 1" "\<not> (nimgy = 2 \<and> \<not> has_overlap ny0 ny1 (mesh ! 1))"
    and rng: "0 \<le> lx" "lx \<le> topl" "0 \<le> ly" "ly \<le> topl" "0 \<le> iz" "iz < mesh ! 2"
      "0 \<le> mesh ! 1"
    and sep: "weightyz + (topl + 1) * (mesh ! 1 * mesh ! 2) \<le> weightz"
      "ys_exp + ny0 + (topl + 1) * mesh ! 1 \<le> weightz"
  shows "orth_y_stage topl mesh nimgy ny0 ny1 ys_exp weightyz weightz m
           (weightz + lx * (topl + 1) * mesh ! 2 + ly * mesh ! 2 + iz) =
         y_contract_ref mesh (ys_exp + ny0) weightyz m lx ly iz"
proof -
  define Yc where "Yc = mesh ! 2"
  define M1 where "M1 = mesh ! 1"
  define L1 where "L1 = topl + 1"
  define XC where "XC = M1 * Yc"
  have pos: "0 < Yc" "0 < L1" "0 \<le> M1"
    using rng by (simp_all add: Yc_def L1_def M1_def)
  have XC0: "0 \<le> XC" using pos by (simp add: XC_def)
  have stage: "orth_y_stage topl mesh nimgy ny0 ny1 ys_exp weightyz weightz m =
          fold (\<lambda>x. dgemm_NN Yc L1 M1 1 (weightyz + x * XC) Yc (ys_exp + ny0) M1 0
                       (weightz + x * L1 * Yc) Yc) [0..topl] m"
    using branch by (auto simp: orth_y_stage_def Let_def Yc_def M1_def L1_def XC_def)
  have rA: "weightyz + lx * XC + iz + k * Yc < weightz" if "0 \<le> k" "k < M1" for k
  proof -
    have "iz + k * Yc < Yc * M1" using cell_bound [of iz Yc k M1] rng that
      by (simp add: Yc_def)
    then have "lx * XC + (iz + k * Yc) < (lx + 1) * XC"
      by (simp add: XC_def algebra_simps)
    also have "\<dots> \<le> L1 * XC"
      using rng XC0 by (intro mult_right_mono) (simp_all add: L1_def)
    finally show ?thesis using sep(1) by (simp add: L1_def XC_def M1_def Yc_def)
  qed
  have rB: "ys_exp + ny0 + k + ly * M1 < weightz" if "0 \<le> k" "k < M1" for k
  proof -
    have "k + ly * M1 < M1 * L1" using cell_bound [of k M1 ly L1] rng that
      by (simp add: L1_def)
    then show ?thesis using sep(2) by (simp add: L1_def M1_def mult.commute)
  qed
  have "fold (\<lambda>x. dgemm_NN Yc L1 M1 1 (weightyz + x * XC) Yc (ys_exp + ny0) M1 0
                       (weightz + x * L1 * Yc) Yc) [0..topl] m
          (weightz + lx * L1 * Yc + iz + ly * Yc) =
        (\<Sum>k\<leftarrow>[0..M1 - 1]. m (weightyz + lx * XC + iz + k * Yc)
                               * m (ys_exp + ny0 + k + ly * M1))"
    using rng pos by (intro y_fold_block rA rB) (simp_all add: Yc_def L1_def)
  then have "orth_y_stage topl mesh nimgy ny0 ny1 ys_exp weightyz weightz m
          (weightz + lx * L1 * Yc + iz + ly * Yc) =
        (\<Sum>k\<leftarrow>[0..M1 - 1]. m (weightyz + lx * XC + iz + k * Yc)
                               * m (ys_exp + ny0 + k + ly * M1))"
    by (simp only: stage)
  then show ?thesis
    by (simp add: y_contract_ref_def Yc_def M1_def L1_def XC_def add.assoc add.commute
        add.left_commute)
qed

text \<open>C5 fails on the code. In the full-range branch of the y stage the call passes
  \<^verbatim>\<open>ys_exp+ny0\<close>, not \<^verbatim>\<open>ys_exp\<close> (the full-range branch of the x stage passes
  \<^verbatim>\<open>xs_exp\<close>). A periodic y axis with two grid points, fractional centre \<open>2/5\<close> and
  fractional cutoff \<open>7/10\<close> has three images and \<open>ny0 = 1\<close>. With \<open>topl = 0\<close>,
  \<open>mesh = [1, 2, 1]\<close>, the buffers at the addresses of \<open>orth_layout\<close>,
  \<open>ys_exp = [2, 3]\<close>, \<open>zs_exp = [5]\<close> and \<open>weightyz = [1, 1]\<close>, the code stores
  \<open>1*3 + 1*5 = 8\<close> in \<open>weightz[0]\<close>: it reads \<open>ys_exp[1]\<close> and the element after the end of
  \<open>ys_exp\<close>. The full-range contraction of the claim is \<open>1*2 + 1*3 = 5\<close>.\<close>

theorem orth_y_stage_full_range_shifted:
  "cartesian_components_slices True 2 (2/5) (7/10) 1 = ((-1, 2), (1, 1)) \<and>
   img_count (cartesian_components_slices True 2 (2/5) (7/10) 1) = 3 \<and>
   orth_layout 0 [1, 2, 1] 0 = (0, 1, 3, 4, 6) \<and>
   orth_y_stage 0 [1, 2, 1] 3 1 1 1 4 6 (mem_of_list 0 [0, 2, 3, 5, 1, 1, 0]) 6 = 8 \<and>
   y_contract_ref [1, 2, 1] 1 4 (mem_of_list 0 [0, 2, 3, 5, 1, 1, 0]) 0 0 0 = 5"
proof -
  have a: "cartesian_components_slices True 2 (2/5) (7/10) 1 = ((-1, 2), (1, 1))"
    by (simp add: cartesian_components_slices_def Let_def signed_modulo_int_def)
  have b: "orth_layout 0 [1, 2, 1] 0 = (0, 1, 3, 4, 6)"
    by (simp add: orth_layout_def)
  have c: "orth_y_stage 0 [1, 2, 1] 3 1 1 1 4 6
             (mem_of_list 0 [0, 2, 3, 5, 1, 1, 0]) 6 = 8"
    by (simp add: orth_y_stage_def dgemm_NN_def mem_of_list_def has_overlap_def upto_rec1)
  have d: "y_contract_ref [1, 2, 1] 1 4 (mem_of_list 0 [0, 2, 3, 5, 1, 1, 0]) 0 0 0 = 5"
    by (simp add: y_contract_ref_def mem_of_list_def upto_rec1)
  from a b c d show ?thesis by (simp add: img_count_def)
qed

subsection \<open>Scratch size against the execution path\<close>

lemma tabs:
  "CUM_LEN_CART 0 = 1" "CUM_LEN_CART 1 = 4" "CUM_LEN_CART 2 = 10"
  "LEN_CART 0 = 1" "LEN_CART 1 = 3"
  by (simp_all add: CUM_LEN_CART_def CUM_LEN_CART_tab_def LEN_CART_def LEN_CART_tab_def)

lemma sdiv_examples: "(2::int) sdiv 2 = 1" "(6::int) sdiv 2 = 3"
  by (simp_all add: signed_divide_int_def)

text \<open>When the first shell is an s shell (and the first argument of \<^verbatim>\<open>MAX\<close> in
  \<^verbatim>\<open>_cache_size\<close> is the larger one), the execution path ends exactly
  \<open>i_prim + j_prim - 20\<close> elements after the size that the sizing query returns.\<close>

lemma numint1e_weightz_end_s_shell:
  assumes "i_l envs = 0"
    and "nf envs * 8 * OF_CMPLX \<le>
           CUM_LEN_CART (j_l envs) * (1 + x_ctr envs ! 0 + x_ctr envs ! 0 * x_ctr envs ! 1)
           + (j_l envs + 1) * (mesh ! 0 + mesh ! 1 + mesh ! 2)
           + (j_l envs + 1) * mesh ! 1 * mesh ! 2
           + (j_l envs + 1) * (j_l envs + 1) * mesh ! 2 + 20"
  shows "numint1e_weightz_end mesh envs 0 =
           cache_size mesh envs
           + (bas envs NPRIM_OF (shls envs ! 0) + bas envs NPRIM_OF (shls envs ! 1) - 20)"
  using assms
  by (simp add: numint1e_weightz_end_def numint1e_loop_layout_def numint1e_len_g1d_def
      numint1e_drv_loop_cache_def orth_layout_def cache_size_def tabs Let_def
      algebra_simps)

text \<open>C1 fails on the code. The sizing query allows 20 elements for the two tables of
  logarithms, which take \<open>i_prim + j_prim\<close> elements. For two s shells with one
  contracted function each, of 11 and 10 primitives, and the mesh \<open>[2, 2, 2]\<close> the sizing
  query returns 36. In the execution path, for a scratch buffer at address 0, the loop
  gets the buffer from address 1 on, its tables are at 4 and 15 and it hands the buffer
  from address 25 on to \<open>GTOnumint_3d_orth\<close>, where \<open>weightz\<close> is at 35 and has
  \<open>l1*l1*mesh[2] = 2\<close> elements; the y contraction stores into both, so into address 36,
  one past the 36 elements of the sizing query (here for a y axis without periodicity,
  fractional centre \<open>1/2\<close> and fractional cutoff 1, hence one image and the grid slice
  \<open>[0, 2)\<close>; the store holds 1 at address 36 before the y contraction and 0 after
  it).\<close>

theorem cache_size_20_too_small:
  "fst (NUMINT1e_ovlp_cart ext NULL None [0, 1] atm natm bas_s11_s10 2 env0 log_prec 3
          a b [2, 2, 2] weights NULL m) = 36 \<and>
   (let envs = CINTinit_int1e_EnvVars [0, 0, 0, 0, 0, 1, 0, 1] [0, 1] atm natm
                 bas_s11_s10 2 env0
    in numint1e_drv_loop_cache envs 0 = 1 \<and>
       numint1e_loop_layout envs 1 = (1, 2, 3, 4, 15, 25)) \<and>
   orth_layout 0 [2, 2, 2] 25 = (25, 27, 29, 31, 35) \<and>
   numint1e_weightz_end [2, 2, 2]
     (CINTinit_int1e_EnvVars [0, 0, 0, 0, 0, 1, 0, 1] [0, 1] atm natm bas_s11_s10 2 env0) 0
     = 37 \<and>
   cartesian_components_slices False 2 (1/2) 1 1 = ((0, 1), (0, 2)) \<and>
   orth_y_stage 0 [2, 2, 2] 1 0 2 27 31 35 ((\<lambda>p. 0)(36 := 1)) 36 = 0"
proof -
  have a: "fst (NUMINT1e_ovlp_cart ext NULL None [0, 1] atm natm bas_s11_s10 2 env0
                  log_prec 3 a b [2, 2, 2] weights NULL m) = 36"
    by (simp add: NUMINT1e_ovlp_cart_def GTO_numint1e_drv_def cache_size_def
        CINTinit_int1e_EnvVars_def bas_s11_s10_def tabs sdiv_examples OF_CMPLX_def Let_def)
  have b: "(let envs = CINTinit_int1e_EnvVars [0, 0, 0, 0, 0, 1, 0, 1] [0, 1] atm natm
                 bas_s11_s10 2 env0
    in numint1e_drv_loop_cache envs 0 = 1 \<and>
       numint1e_loop_layout envs 1 = (1, 2, 3, 4, 15, 25))"
    by (simp add: CINTinit_int1e_EnvVars_def bas_s11_s10_def tabs sdiv_examples
        numint1e_drv_loop_cache_def numint1e_loop_layout_def numint1e_len_g1d_def Let_def)
  have c: "orth_layout 0 [2, 2, 2] 25 = (25, 27, 29, 31, 35)"
    by (simp add: orth_layout_def)
  have d: "orth_y_stage 0 [2, 2, 2] 1 0 2 27 31 35 ((\<lambda>p. 0)(36 := 1)) 36 = 0"
    by (simp add: orth_y_stage_def dgemm_NN_def upto_rec1)
  have e: "cartesian_components_slices False 2 (1/2) 1 1 = ((0, 1), (0, 2))"
    by (simp add: cartesian_components_slices_def Let_def)
  have f: "numint1e_weightz_end [2, 2, 2]
     (CINTinit_int1e_EnvVars [0, 0, 0, 0, 0, 1, 0, 1] [0, 1] atm natm bas_s11_s10 2 env0) 0
     = 37"
    by (simp add: numint1e_weightz_end_def CINTinit_int1e_EnvVars_def bas_s11_s10_def tabs
        sdiv_examples numint1e_drv_loop_cache_def numint1e_loop_layout_def
        numint1e_len_g1d_def orth_layout_def Let_def)
  from a b c d e f show ?thesis by blast
qed

text \<open>C10 fails on the code. For the mesh \<open>[2, 2, 2]\<close> and two shells, an s shell
  with 8 contracted functions and a p shell with 2, the maximum of the sizing query over
  the diagonal pairs \<open>(0, 0)\<close> and \<open>(1, 1)\<close> is 180 (169 and 180), and the sizing query
  for the mixed pair \<open>(0, 1)\<close> returns 196: the term
  \<open>_CUM_LEN_CART[l] * (1 + i_ctr + i_ctr*j_ctr)\<close> is 100 for the mixed pair, 73 and 70
  for the diagonal pairs. The execution path of the mixed pair also goes beyond 180
  elements: \<open>weightz\<close> is at offset 178 and has \<open>l1*l1*mesh[2] = 8\<close> elements, it ends at
  offset 186.\<close>

theorem max_cache_size_misses_mixed_pair:
  "fst (max_cache_size (NUMINT1e_ovlp_cart ext) [0, 2, 0, 2] atm natm bas_s8_p2 2 env0
          a b [2, 2, 2] weights m) = 180 \<and>
   fst (NUMINT1e_ovlp_cart ext NULL None [0, 1] atm natm bas_s8_p2 2 env0 0 3
          a b [2, 2, 2] weights NULL m) = 196 \<and>
   (let envs = CINTinit_int1e_EnvVars [0, 0, 0, 0, 0, 1, 0, 1] [0, 1] atm natm
                 bas_s8_p2 2 env0
    in numint1e_drv_loop_cache envs 0 = 48 \<and>
       numint1e_loop_layout envs 48 = (48, 112, 144, 148, 156, 158)) \<and>
   orth_layout 1 [2, 2, 2] 158 = (158, 162, 166, 170, 178) \<and>
   numint1e_weightz_end [2, 2, 2]
     (CINTinit_int1e_EnvVars [0, 0, 0, 0, 0, 1, 0, 1] [0, 1] atm natm bas_s8_p2 2 env0) 0
     = 186"
proof -
  have a: "fst (max_cache_size (NUMINT1e_ovlp_cart ext) [0, 2, 0, 2] atm natm bas_s8_p2 2
                  env0 a b [2, 2, 2] weights m) = 180"
    by (simp add: max_cache_size_def NUMINT1e_ovlp_cart_def GTO_numint1e_drv_def
        cache_size_def CINTinit_int1e_EnvVars_def bas_s8_p2_def tabs sdiv_examples
        OF_CMPLX_def upto_rec1 Let_def)
  have b: "fst (NUMINT1e_ovlp_cart ext NULL None [0, 1] atm natm bas_s8_p2 2 env0 0 3
                  a b [2, 2, 2] weights NULL m) = 196"
    by (simp add: NUMINT1e_ovlp_cart_def GTO_numint1e_drv_def
        cache_size_def CINTinit_int1e_EnvVars_def bas_s8_p2_def tabs sdiv_examples
        OF_CMPLX_def Let_def)
  have c: "(let envs = CINTinit_int1e_EnvVars [0, 0, 0, 0, 0, 1, 0, 1] [0, 1] atm natm
                 bas_s8_p2 2 env0
    in numint1e_drv_loop_cache envs 0 = 48 \<and>
       numint1e_loop_layout envs 48 = (48, 112, 144, 148, 156, 158))"
    by (simp add: CINTinit_int1e_EnvVars_def bas_s8_p2_def tabs sdiv_examples
        numint1e_drv_loop_cache_def numint1e_loop_layout_def numint1e_len_g1d_def Let_def)
  have d: "orth_layout 1 [2, 2, 2] 158 = (158, 162, 166, 170, 178)"
    by (simp add: orth_layout_def)
  have e: "numint1e_weightz_end [2, 2, 2]
     (CINTinit_int1e_EnvVars [0, 0, 0, 0, 0, 1, 0, 1] [0, 1] atm natm bas_s8_p2 2 env0) 0
     = 186"
    by (simp add: numint1e_weightz_end_def CINTinit_int1e_EnvVars_def bas_s8_p2_def tabs
        sdiv_examples numint1e_drv_loop_cache_def numint1e_loop_layout_def
        numint1e_len_g1d_def orth_layout_def Let_def)
  from a b c d e show ?thesis by blast
qed

subsection \<open>Shell pairs without a contribution\<close>

lemma envs_far:
  "CINTinit_int1e_EnvVars [0, 0, 0, 0, 0, 1, 0, 1] [0, 1] atm_far 2 bas_far 2 env_far =
     \<lparr> shls = [0, 1], bas = bas_far, env = env_far, i_l = 0, j_l = 0,
       nfi = 1, nfj = 1, nf = 1, x_ctr = [1, 1], ncomp_e1 = 1, ncomp_tensor = 1,
       ri = [0, 0, 0], rj = [10, 0, 0] \<rparr>"
  by (simp add: CINTinit_int1e_EnvVars_def bas_far_def atm_far_def env_far_def
      mem_of_list_def sdiv_examples Let_def)

lemma bas_far_simps:
  "bas_far NPRIM_OF sh = 1" "bas_far NCTR_OF sh = 1" "bas_far PTR_EXP sh = 0"
  "bas_far PTR_COEFF sh = 1"
  by (simp_all add: bas_far_def)

lemma env_far_simps: "env_far 0 = 1" "env_far 1 = 1"
  by (simp_all add: env_far_def mem_of_list_def)

lemma loop_far:
  "GTOnumint1e_loop (ext\<lparr>CINTsquare_dist := square_dist\<rparr>) 0 fac log_prec dimension a b
     mesh weights
     \<lparr> shls = [0, 1], bas = bas_far, env = env_far, i_l = 0, j_l = 0,
       nfi = 1, nfj = 1, nf = 1, x_ctr = [1, 1], ncomp_e1 = 1, ncomp_tensor = 1,
       ri = [0, 0, 0], rj = [10, 0, 0] \<rparr> 1 (\<lambda>p. 7) =
   (0, (\<lambda>p. 7)(4 := 0, 5 := 0))"
  by (simp add: GTOnumint1e_loop_def numint1e_log_tables_def numint1e_jp_step_def
      numint1e_ip_step_def numint1e_pair_skipped_def numint1e_loop_layout_def
      numint1e_len_g1d_def
      max_pgto_coeff_def square_dist_def tabs bas_far_simps env_far_simps
      EXPCUTOFF15_def upto_rec1 Let_def)

text \<open>The flags of the two loops over the primitives. A skipped pair leaves the flag
  and the store as they are, a pair that is not skipped clears the flag, and a cleared
  flag stays cleared.\<close>

lemma ip_step_skipped:
  assumes "numint1e_loop_layout envs cache = (gctrj, gctri, g, li, lj, c')"
    and "numint1e_pair_skipped envs rrij li lj m ip jp"
  shows "numint1e_ip_step fac1 log_prec dimension a b mesh weights envs cache rrij jp ip
           (e, m) = (e, m)"
  using assms by (simp add: numint1e_ip_step_def Let_def)

lemma ip_step_not_skipped:
  assumes "numint1e_loop_layout envs cache = (gctrj, gctri, g, li, lj, c')"
    and "\<not> numint1e_pair_skipped envs rrij li lj m ip jp"
  shows "fst (numint1e_ip_step fac1 log_prec dimension a b mesh weights envs cache rrij
                jp ip (e, m)) = False"
  using assms by (simp add: numint1e_ip_step_def Let_def)

lemma ip_step_flag_down:
  "fst (numint1e_ip_step fac1 log_prec dimension a b mesh weights envs cache rrij jp ip
          (False, m)) = False"
  by (simp add: numint1e_ip_step_def Let_def split_beta)

lemma ip_fold_flag_down:
  "fst (fold (numint1e_ip_step fac1 log_prec dimension a b mesh weights envs cache rrij jp)
          ips (False, m)) = False"
proof (induction ips arbitrary: m)
  case Nil
  then show ?case by simp
next
  case (Cons ip ips)
  obtain m' where "numint1e_ip_step fac1 log_prec dimension a b mesh weights envs cache rrij
                     jp ip (False, m) = (False, m')"
    using ip_step_flag_down [of fac1 log_prec dimension a b mesh weights envs cache rrij jp
        ip m]
    by (cases "numint1e_ip_step fac1 log_prec dimension a b mesh weights envs cache rrij
                 jp ip (False, m)") simp
  then show ?case using Cons.IH by simp
qed

lemma ip_fold_all_skipped:
  assumes "numint1e_loop_layout envs cache = (gctrj, gctri, g, li, lj, c')"
    and "\<forall>ip \<in> set ips. numint1e_pair_skipped envs rrij li lj m ip jp"
  shows "fold (numint1e_ip_step fac1 log_prec dimension a b mesh weights envs cache rrij jp)
           ips (e, m) = (e, m)"
  using assms(2)
  by (induction ips) (simp_all add: ip_step_skipped [OF assms(1)])

lemma ip_fold_some_kept:
  assumes "numint1e_loop_layout envs cache = (gctrj, gctri, g, li, lj, c')"
    and "\<exists>ip \<in> set ips. \<not> numint1e_pair_skipped envs rrij li lj m ip jp"
  shows "fst (fold (numint1e_ip_step fac1 log_prec dimension a b mesh weights envs cache
                      rrij jp) ips (e, m)) = False"
  using assms(2)
proof (induction ips)
  case Nil
  then show ?case by simp
next
  case (Cons ip ips)
  show ?case
  proof (cases "numint1e_pair_skipped envs rrij li lj m ip jp")
    case True
    then show ?thesis
      using Cons by (simp add: ip_step_skipped [OF assms(1)])
  next
    case False
    have "fst (numint1e_ip_step fac1 log_prec dimension a b mesh weights envs cache
                 rrij jp ip (e, m)) = False"
      by (rule ip_step_not_skipped [OF assms(1) False])
    then obtain m' where "numint1e_ip_step fac1 log_prec dimension a b mesh weights envs
                            cache rrij jp ip (e, m) = (False, m')"
      by (cases "numint1e_ip_step fac1 log_prec dimension a b mesh weights envs cache rrij
                   jp ip (e, m)") simp
    then show ?thesis by (simp add: ip_fold_flag_down)
  qed
qed

lemma jp_step_flag_down:
  "fst (numint1e_jp_step fac1 log_prec dimension a b mesh weights envs cache rrij jp
          (False, m)) = False"
  by (simp add: numint1e_jp_step_def Let_def split_beta)

lemma jp_fold_flag_down:
  "fst (fold (numint1e_jp_step fac1 log_prec dimension a b mesh weights envs cache rrij)
          jps (False, m)) = False"
proof (induction jps arbitrary: m)
  case Nil
  then show ?case by simp
next
  case (Cons jp jps)
  obtain m' where "numint1e_jp_step fac1 log_prec dimension a b mesh weights envs cache rrij
                     jp (False, m) = (False, m')"
    using jp_step_flag_down [of fac1 log_prec dimension a b mesh weights envs cache rrij jp m]
    by (cases "numint1e_jp_step fac1 log_prec dimension a b mesh weights envs cache rrij
                 jp (False, m)") simp
  then show ?case using Cons.IH by simp
qed

lemma jp_step_all_skipped:
  assumes "numint1e_loop_layout envs cache = (gctrj, gctri, g, li, lj, c')"
    and "\<forall>ip \<in> set [0..bas envs NPRIM_OF (shls envs ! 0) - 1].
           numint1e_pair_skipped envs rrij li lj m ip jp"
  shows "numint1e_jp_step fac1 log_prec dimension a b mesh weights envs cache rrij jp (e, m)
           = (e, m)"
  using ip_fold_all_skipped [OF assms, where e = True]
  by (simp add: numint1e_jp_step_def Let_def assms(1))

lemma jp_step_some_kept:
  assumes "numint1e_loop_layout envs cache = (gctrj, gctri, g, li, lj, c')"
    and "\<exists>ip \<in> set [0..bas envs NPRIM_OF (shls envs ! 0) - 1].
           \<not> numint1e_pair_skipped envs rrij li lj m ip jp"
  shows "fst (numint1e_jp_step fac1 log_prec dimension a b mesh weights envs cache rrij jp
                (e, m)) = False"
  using ip_fold_some_kept [OF assms, where e = True]
  by (simp add: numint1e_jp_step_def Let_def assms(1) split_beta)

lemma jp_fold_all_skipped:
  assumes "numint1e_loop_layout envs cache = (gctrj, gctri, g, li, lj, c')"
    and "\<forall>jp \<in> set jps. \<forall>ip \<in> set [0..bas envs NPRIM_OF (shls envs ! 0) - 1].
           numint1e_pair_skipped envs rrij li lj m ip jp"
  shows "fold (numint1e_jp_step fac1 log_prec dimension a b mesh weights envs cache rrij)
           jps (e, m) = (e, m)"
  using assms(2)
  by (induction jps) (simp_all add: jp_step_all_skipped [OF assms(1)])

lemma jp_fold_some_kept:
  assumes "numint1e_loop_layout envs cache = (gctrj, gctri, g, li, lj, c')"
    and "\<exists>jp \<in> set jps. \<exists>ip \<in> set [0..bas envs NPRIM_OF (shls envs ! 0) - 1].
           \<not> numint1e_pair_skipped envs rrij li lj m ip jp"
  shows "fst (fold (numint1e_jp_step fac1 log_prec dimension a b mesh weights envs cache
                      rrij) jps (e, m)) = False"
  using assms(2)
proof (induction jps)
  case Nil
  then show ?case by simp
next
  case (Cons jp jps)
  show ?case
  proof (cases "\<forall>ip \<in> set [0..bas envs NPRIM_OF (shls envs ! 0) - 1].
                  numint1e_pair_skipped envs rrij li lj m ip jp")
    case True
    then show ?thesis
      using Cons by (simp add: jp_step_all_skipped [OF assms(1)])
  next
    case False
    then have ex: "\<exists>ip \<in> set [0..bas envs NPRIM_OF (shls envs ! 0) - 1].
           \<not> numint1e_pair_skipped envs rrij li lj m ip jp" by blast
    have "fst (numint1e_jp_step fac1 log_prec dimension a b mesh weights envs cache
                 rrij jp (e, m)) = False"
      by (rule jp_step_some_kept [OF assms(1) ex])
    then obtain m' where "numint1e_jp_step fac1 log_prec dimension a b mesh weights envs
                            cache rrij jp (e, m) = (False, m')"
      by (cases "numint1e_jp_step fac1 log_prec dimension a b mesh weights envs cache rrij
                   jp (e, m)") simp
    then show ?thesis by (simp add: jp_fold_flag_down)
  qed
qed


text \<open>\<^verbatim>\<open>GTOnumint1e_loop\<close> returns 0 exactly when every primitive pair \<open>(ip, jp)\<close> is
  skipped; the tests read the tables of logarithms that the loop has just filled. In
  that case the loop has changed nothing but the two tables.\<close>

lemma GTOnumint1e_loop_value_iff:
  assumes "numint1e_loop_layout envs cache = (gctrj, gctri, g, li, lj, c')"
  shows "fst (GTOnumint1e_loop ext out fac log_prec dimension a b mesh weights envs cache m)
         = (if \<forall>jp \<in> set [0..bas envs NPRIM_OF (shls envs ! 1) - 1].
                 \<forall>ip \<in> set [0..bas envs NPRIM_OF (shls envs ! 0) - 1].
                   numint1e_pair_skipped envs (CINTsquare_dist ext (ri envs) (rj envs))
                     li lj (numint1e_log_tables envs cache m) ip jp
            then 0 else 1)"
proof (cases "\<forall>jp \<in> set [0..bas envs NPRIM_OF (shls envs ! 1) - 1].
                 \<forall>ip \<in> set [0..bas envs NPRIM_OF (shls envs ! 0) - 1].
                   numint1e_pair_skipped envs (CINTsquare_dist ext (ri envs) (rj envs))
                     li lj (numint1e_log_tables envs cache m) ip jp")
  case True
  then show ?thesis
    using jp_fold_all_skipped [OF assms True, where e = True]
    by (simp add: GTOnumint1e_loop_def Let_def assms)
next
  case False
  then have ex: "\<exists>jp \<in> set [0..bas envs NPRIM_OF (shls envs ! 1) - 1].
                 \<exists>ip \<in> set [0..bas envs NPRIM_OF (shls envs ! 0) - 1].
                   \<not> numint1e_pair_skipped envs (CINTsquare_dist ext (ri envs) (rj envs))
                     li lj (numint1e_log_tables envs cache m) ip jp"
    by blast
  show ?thesis
    using False jp_fold_some_kept [OF assms ex, where e = True]
    by (simp add: GTOnumint1e_loop_def Let_def assms split_beta)
qed

lemma GTOnumint1e_loop_all_skipped:
  assumes "numint1e_loop_layout envs cache = (gctrj, gctri, g, li, lj, c')"
    and "\<forall>jp \<in> set [0..bas envs NPRIM_OF (shls envs ! 1) - 1].
           \<forall>ip \<in> set [0..bas envs NPRIM_OF (shls envs ! 0) - 1].
             numint1e_pair_skipped envs (CINTsquare_dist ext (ri envs) (rj envs))
               li lj (numint1e_log_tables envs cache m) ip jp"
  shows "GTOnumint1e_loop ext out fac log_prec dimension a b mesh weights envs cache m
         = (0, numint1e_log_tables envs cache m)"
  using jp_fold_all_skipped [OF assms, where e = True]
  by (simp add: GTOnumint1e_loop_def Let_def assms(1))

lemma numint1e_log_tables_other:
  assumes "numint1e_loop_layout envs cache = (gctrj, gctri, g, li, lj, c')"
    and "\<not> (li \<le> p \<and> p < li + bas envs NPRIM_OF (shls envs ! 0))"
    and "\<not> (lj \<le> p \<and> p < lj + bas envs NPRIM_OF (shls envs ! 1))"
  shows "numint1e_log_tables envs cache m p = m p"
proof -
  have i: "\<forall>ip \<in> set [0..bas envs NPRIM_OF (shls envs ! 0) - 1]. li + ip \<noteq> p"
    using assms(2) by auto
  have j: "\<forall>jp \<in> set [0..bas envs NPRIM_OF (shls envs ! 1) - 1]. lj + jp \<noteq> p"
    using assms(3) by auto
  let ?vi = "\<lambda>ip. ln (max_pgto_coeff (env envs) (bas envs PTR_COEFF (shls envs ! 0))
                        (bas envs NPRIM_OF (shls envs ! 0)) (x_ctr envs ! 0) ip)"
  let ?vj = "\<lambda>jp. ln (max_pgto_coeff (env envs) (bas envs PTR_COEFF (shls envs ! 1))
                        (bas envs NPRIM_OF (shls envs ! 1)) (x_ctr envs ! 1) jp)"
  let ?m1 = "fold (\<lambda>ip m'. m'(li + ip := ?vi ip))
               [0..bas envs NPRIM_OF (shls envs ! 0) - 1] m"
  have "numint1e_log_tables envs cache m p =
          fold (\<lambda>jp m'. m'(lj + jp := ?vj jp))
            [0..bas envs NPRIM_OF (shls envs ! 1) - 1] ?m1 p"
    unfolding numint1e_log_tables_def Let_def assms(1) prod.case ..
  also have "\<dots> = ?m1 p"
    by (rule fold_upd_other [OF j, where v = ?vj and m = ?m1])
  also have "\<dots> = m p"
    by (rule fold_upd_other [OF i, where v = ?vi and m = m])
  finally show ?thesis .
qed

text \<open>When every primitive pair is skipped, the driver returns 0 and every address outside
  \<^verbatim>\<open>gctr\<close> and the two tables, all three inside the scratch buffer, holds what it held
  before the call: so does the output block.\<close>

lemma GTO_numint1e_drv_all_skipped:
  assumes out: "out \<noteq> NULL"
    and lay: "numint1e_loop_layout envs (numint1e_drv_loop_cache envs cache) =
                (gctrj, gctri, g, li, lj, c')"
    and skip: "\<forall>jp \<in> set [0..bas envs NPRIM_OF (shls envs ! 1) - 1].
           \<forall>ip \<in> set [0..bas envs NPRIM_OF (shls envs ! 0) - 1].
             numint1e_pair_skipped envs (CINTsquare_dist ext (ri envs) (rj envs))
               li lj (numint1e_log_tables envs (numint1e_drv_loop_cache envs cache) m) ip jp"
    and p: "\<not> (cache \<le> p \<and> p < numint1e_drv_loop_cache envs cache)"
       "\<not> (li \<le> p \<and> p < li + bas envs NPRIM_OF (shls envs ! 0))"
       "\<not> (lj \<le> p \<and> p < lj + bas envs NPRIM_OF (shls envs ! 1))"
  shows "fst (GTO_numint1e_drv ext out dims f_c2s fac log_prec dimension a b mesh weights
                envs cache m) = 0"
    and "snd (GTO_numint1e_drv ext out dims f_c2s fac log_prec dimension a b mesh weights
                envs cache m) p = m p"
proof -
  define N where "N = nf envs * (x_ctr envs ! 0) * (x_ctr envs ! 1)
                         * (ncomp_e1 envs * ncomp_tensor envs)"
  have cN: "numint1e_drv_loop_cache envs cache = cache + N"
    by (simp add: numint1e_drv_loop_cache_def N_def Let_def)
  have loop: "GTOnumint1e_loop ext cache fac log_prec dimension a b mesh weights envs
                (numint1e_drv_loop_cache envs cache) m =
              (0, numint1e_log_tables envs (numint1e_drv_loop_cache envs cache) m)"
    by (rule GTOnumint1e_loop_all_skipped [OF lay skip])
  have drv: "GTO_numint1e_drv ext out dims f_c2s fac log_prec dimension a b mesh weights
               envs cache m =
             (0, fold (\<lambda>n m'. m'(cache + n := 0)) [0..N - 1]
                   (numint1e_log_tables envs (numint1e_drv_loop_cache envs cache) m))"
    using out loop by (simp add: GTO_numint1e_drv_def N_def Let_def)
  show "fst (GTO_numint1e_drv ext out dims f_c2s fac log_prec dimension a b mesh weights
                envs cache m) = 0"
    by (simp add: drv)
  have other: "\<forall>n \<in> set [0..N - 1]. cache + n \<noteq> p"
    using p(1) unfolding cN by auto
  have "snd (GTO_numint1e_drv ext out dims f_c2s fac log_prec dimension a b mesh
                weights envs cache m) p =
        numint1e_log_tables envs (numint1e_drv_loop_cache envs cache) m p"
    unfolding drv snd_conv
    by (rule fold_upd_other [OF other, where v = "\<lambda>n. 0"
          and m = "numint1e_log_tables envs (numint1e_drv_loop_cache envs cache) m"])
  also have "\<dots> = m p"
    by (rule numint1e_log_tables_other [OF lay p(2) p(3)])
  finally show "snd (GTO_numint1e_drv ext out dims f_c2s fac log_prec dimension a b mesh
                weights envs cache m) p = m p" .
qed

text \<open>When the loop reports no value, the driver zero-fills \<^verbatim>\<open>gctr\<close>, which is the start
  of the scratch buffer, calls no conversion routine and returns 0: beyond what the loop
  did, nothing but \<^verbatim>\<open>gctr\<close> changes.\<close>

lemma GTO_numint1e_drv_no_value:
  assumes "out \<noteq> NULL"
    and "GTOnumint1e_loop ext cache fac log_prec dimension a b mesh weights envs
           (numint1e_drv_loop_cache envs cache) m = (0, m1)"
  shows "GTO_numint1e_drv ext out dims f_c2s fac log_prec dimension a b mesh weights envs
           cache m =
         (0, fold (\<lambda>n m'. m'(cache + n := 0))
               [0..nf envs * (x_ctr envs ! 0) * (x_ctr envs ! 1)
                     * (ncomp_e1 envs * ncomp_tensor envs) - 1] m1)"
  using assms by (simp add: GTO_numint1e_drv_def Let_def)

text \<open>C2 fails on the code. Two s shells of one primitive each (exponent 1, coefficient
  1) ten units apart have \<open>eij = 50\<close>, above the cutoff 40, so the only primitive pair is
  skipped. With the output block at address 1000, the scratch buffer at address 0 and a
  store that holds 7 everywhere, the driver returns 0 and zero-fills \<^verbatim>\<open>gctr\<close>, the first
  element of the scratch buffer, but the output block still holds 7: the conversion
  routine, the only code that stores to \<^verbatim>\<open>out\<close>, is called only when there is a
  value.\<close>

theorem GTO_numint1e_drv_out_stale:
  "(let r = NUMINT1e_ovlp_cart (ext\<lparr>CINTsquare_dist := square_dist\<rparr>) 1000 None [0, 1]
              atm_far 2 bas_far 2 env_far log_prec dimension a b mesh weights 0 (\<lambda>p. 7)
    in fst r = 0 \<and> snd r 0 = 0 \<and> snd r 1000 = 7)"
  by (simp add: NUMINT1e_ovlp_cart_def envs_far GTO_numint1e_drv_def NULL_def
      numint1e_drv_loop_cache_def loop_far upto_rec1 Let_def)

subsection \<open>Triangular fill and mirror\<close>

lemma fold_filter_map:
  assumes "\<And>x s. f x s = (if P x then g (h x) s else s)"
  shows "fold f xs s = fold g (map h (filter P xs)) s"
  by (induction xs arbitrary: s) (simp_all add: assms)

lemma fill2c_loop_calls:
  "fold (fill2c_pair intor_fn mat hermi shls_slice ao_loc log_prec dimension a b mesh
           weights atm natm bas0 nbas env0 cache)
     [0..(shls_slice ! 1 - shls_slice ! 0) * (shls_slice ! 3 - shls_slice ! 2) - 1] m =
   fold (fill2c_call intor_fn mat shls_slice ao_loc log_prec dimension a b mesh weights
           atm natm bas0 nbas env0 cache)
     (fill2c_calls hermi shls_slice) m"
  unfolding fill2c_calls_def Let_def
  by (rule fold_filter_map) (simp add: fill2c_pair_def fill2c_call_def Let_def)

lemma fill2c_calls_upper:
  assumes "(ish, jsh) \<in> set (fill2c_calls hermi shls_slice)" and "hermi \<noteq> PLAIN"
  shows "ish - shls_slice ! 0 \<le> jsh - shls_slice ! 2"
  using assms by (auto simp: fill2c_calls_def Let_def)

lemma div_mod_decode:
  fixes p q n :: int
  assumes "0 \<le> p" "0 \<le> q" "q < n"
  shows "(p * n + q) div n = p" "(p * n + q) mod n = q"
  using assms by (simp_all add: div_pos_pos_trivial)

lemma idx_bound:
  fixes p q n :: int
  assumes "0 \<le> p" "p < n" "0 \<le> q" "q < n"
  shows "0 \<le> p * n + q" "p * n + q < n * n"
proof -
  show "0 \<le> p * n + q" using assms by simp
  have "p * n + q < p * n + n" using assms by simp
  also have "\<dots> = (p + 1) * n" by (simp add: algebra_simps)
  also have "\<dots> \<le> n * n" using assms by (simp add: mult_right_mono)
  finally show "p * n + q < n * n" .
qed

lemma NPdsymm_triu_upper:
  assumes "0 \<le> p" "p < q" "q < n"
  shows "NPdsymm_triu n mat hermi m (mat + p * n + q) =
           (if hermi = HERMITIAN \<or> hermi = SYMMETRIC then m (mat + q * n + p)
            else if hermi = ANTIHERMI then - m (mat + q * n + p)
            else m (mat + p * n + q))"
proof -
  have "0 \<le> q" "p < n" using assms by simp_all
  with assms show ?thesis
    using idx_bound [of p n q] div_mod_decode [of p q n]
    by (simp add: NPdsymm_triu_def Let_def)
qed

lemma NPdsymm_triu_lower:
  assumes "0 \<le> q" "q \<le> p" "p < n"
  shows "NPdsymm_triu n mat hermi m (mat + p * n + q) = m (mat + p * n + q)"
proof -
  have "0 \<le> p" "q < n" using assms by simp_all
  with assms show ?thesis
    using div_mod_decode [of p q n]
    by (simp add: NPdsymm_triu_def Let_def)
qed


lemma NPdsymm_triu_outside:
  assumes "\<not> (0 \<le> X - mat \<and> X - mat < n * n)"
  shows "NPdsymm_triu n mat hermi m X = m X"
  using assms by (auto simp: NPdsymm_triu_def Let_def)

lemma NPdsymm_triu_cong:
  assumes n: "0 < n"
    and eq: "\<And>Y. 0 \<le> Y - mat \<Longrightarrow> Y - mat < n * n \<Longrightarrow> m Y = m' Y"
    and X: "0 \<le> X - mat" "X - mat < n * n"
  shows "NPdsymm_triu n mat hermi m X = NPdsymm_triu n mat hermi m' X"
proof -
  let ?r = "X - mat"
  let ?p = "?r div n"
  let ?q = "?r mod n"
  have q: "0 \<le> ?q" "?q < n" using n by simp_all
  have p: "0 \<le> ?p" using n X by (simp add: pos_imp_zdiv_nonneg_iff)
  have mX: "m X = m' X" using eq X by simp
  show ?thesis
  proof (cases "?p < ?q")
    case True
    then have "?p < n" using q by simp
    then have "0 \<le> ?q * n + ?p" "?q * n + ?p < n * n"
      using idx_bound [of ?q n ?p] q p by simp_all
    then have "m (mat + ?q * n + ?p) = m' (mat + ?q * n + ?p)"
      using eq [of "mat + ?q * n + ?p"] by simp
    then show ?thesis using mX by (simp add: NPdsymm_triu_def Let_def)
  next
    case False
    then show ?thesis using mX by (simp add: NPdsymm_triu_def Let_def)
  qed
qed

lemma blocks_disjoint:
  fixes n k a X mat :: int
  assumes "0 < n" "a \<noteq> k" "0 \<le> X - (mat + k * n * n)" "X - (mat + k * n * n) < n * n"
  shows "\<not> (0 \<le> X - (mat + a * n * n) \<and> X - (mat + a * n * n) < n * n)"
proof -
  define N where "N = n * n"
  have N: "0 < N" using assms(1) by (simp add: N_def)
  define r where "r = X - (mat + k * n * n)"
  have r: "0 \<le> r" "r < N" using assms by (simp_all add: r_def N_def)
  have e: "X - (mat + a * n * n) = r + (k - a) * N"
    by (simp add: r_def N_def algebra_simps)
  show ?thesis
  proof (cases "a < k")
    case True
    then have "1 \<le> k - a" by simp
    then have "1 * N \<le> (k - a) * N" using N by (intro mult_right_mono) simp_all
    then show ?thesis using r e N_def by simp
  next
    case False
    then have "k - a \<le> -1" using assms(2) by simp
    then have "(k - a) * N \<le> (-1) * N" using N by (intro mult_right_mono) simp_all
    then show ?thesis using r e N_def by simp
  qed
qed

lemma fold_NPdsymm_triu_block:
  assumes "0 < n" "distinct ics"
    and "0 \<le> X - (mat + k * n * n)" "X - (mat + k * n * n) < n * n"
  shows "fold (\<lambda>ic. NPdsymm_triu n (mat + ic * n * n) hermi) ics m X =
           (if k \<in> set ics then NPdsymm_triu n (mat + k * n * n) hermi m X else m X)"
  using assms(2)
proof (induction ics arbitrary: m)
  case Nil
  then show ?case by simp
next
  case (Cons a ics)
  let ?T = "\<lambda>ic. NPdsymm_triu n (mat + ic * n * n) hermi"
  have IH: "fold ?T ics (?T a m) X =
              (if k \<in> set ics then ?T k (?T a m) X else ?T a m X)"
    using Cons by simp
  show ?case
  proof (cases "a = k")
    case True
    then have "k \<notin> set ics" using Cons.prems by simp
    then show ?thesis using IH True by simp
  next
    case False
    have out: "?T a m' Y = m' Y"
      if "0 \<le> Y - (mat + k * n * n)" "Y - (mat + k * n * n) < n * n" for Y m'
      using blocks_disjoint [OF assms(1) False that] by (rule NPdsymm_triu_outside)
    have "?T k (?T a m) X = ?T k m X"
      by (rule NPdsymm_triu_cong [OF assms(1) _ assms(3) assms(4)]) (rule out)
    then show ?thesis using IH False out [OF assms(3) assms(4)] by simp
  qed
qed

lemma mirror_result:
  fixes n :: int
  assumes n: "0 \<le> ic" "ic < ncomp" "0 \<le> i" "i < n" "0 \<le> j" "j < n"
  shows "fold (\<lambda>ic. NPdsymm_triu n (mat + ic * n * n) hermi) [0..ncomp - 1] m
           (mat + ic * n * n + i * n + j) =
         (if i < j then
            (if hermi = HERMITIAN \<or> hermi = SYMMETRIC then m (mat + ic * n * n + j * n + i)
             else if hermi = ANTIHERMI then - m (mat + ic * n * n + j * n + i)
             else m (mat + ic * n * n + i * n + j))
          else m (mat + ic * n * n + i * n + j))"
proof -
  have npos: "0 < n" using n by simp
  have b: "0 \<le> i * n + j" "i * n + j < n * n" using idx_bound [of i n j] n by simp_all
  have mem: "ic \<in> set [0..ncomp - 1]" using n by simp
  have "fold (\<lambda>ic. NPdsymm_triu n (mat + ic * n * n) hermi) [0..ncomp - 1] m
          (mat + ic * n * n + i * n + j) =
        NPdsymm_triu n (mat + ic * n * n) hermi m (mat + ic * n * n + i * n + j)"
    using fold_NPdsymm_triu_block [of n "[0..ncomp - 1]" "mat + ic * n * n + i * n + j" mat ic
        hermi m] npos b mem
    by (simp add: algebra_simps)
  also have "\<dots> = (if i < j then
            (if hermi = HERMITIAN \<or> hermi = SYMMETRIC then m (mat + ic * n * n + j * n + i)
             else if hermi = ANTIHERMI then - m (mat + ic * n * n + j * n + i)
             else m (mat + ic * n * n + i * n + j))
          else m (mat + ic * n * n + i * n + j))"
  proof (cases "i < j")
    case True
    then show ?thesis
      using NPdsymm_triu_upper [of i j n "mat + ic * n * n" hermi m] n
      by (simp add: add.assoc)
  next
    case False
    then show ?thesis
      using NPdsymm_triu_lower [of j i n "mat + ic * n * n" hermi m] n
      by (simp add: add.assoc)
  qed
  finally show ?thesis .
qed


lemma hermi_codes:
  "HERMITIAN \<noteq> PLAIN" "ANTIHERMI \<noteq> PLAIN" "SYMMETRIC \<noteq> PLAIN"
  "HERMITIAN \<noteq> ANTIHERMI" "SYMMETRIC \<noteq> ANTIHERMI" "HERMITIAN \<noteq> SYMMETRIC"
  by (simp_all add: PLAIN_def HERMITIAN_def ANTIHERMI_def SYMMETRIC_def)

text \<open>C4, as the code has it. In the Hermitian, anti-Hermitian and symmetric modes the
  kernel is called only for the shell pairs whose positions in their slices satisfy
  \<open>ish - ish0 \<le> jsh - jsh0\<close> (so \<open>ish \<le> jsh\<close> when both slices start at the same shell);
  the result of the driver is the mirror step applied, component by component, to the
  store that the calls of the kernel leave; in it \<open>M[i,j] = M[j,i]\<close> for all \<open>i\<close>, \<open>j\<close> in
  range in the Hermitian and symmetric modes, and \<open>M[i,j] = - M[j,i]\<close> for all \<open>i \<noteq> j\<close> in
  the anti-Hermitian mode.\<close>

theorem NUMINT1e_fill2c_mirror:
  assumes hermi: "hermi = HERMITIAN \<or> hermi = ANTIHERMI \<or> hermi = SYMMETRIC"
  shows
    "(let n = ao_loc (shls_slice ! 1) - ao_loc (shls_slice ! 0);
          m0 = snd (max_cache_size intor_fn shls_slice atm natm bas0 nbas env0 a b mesh
                      weights m);
          m1 = fold (fill2c_call intor_fn mat shls_slice ao_loc log_prec dimension a b
                       mesh weights atm natm bas0 nbas env0 cache)
                 (fill2c_calls hermi shls_slice) m0;
          m' = NUMINT1e_fill2c intor_fn mat ncomp hermi shls_slice ao_loc log_prec
                 dimension a b mesh weights atm natm bas0 nbas env0 nenv cache m
      in (\<forall>(ish, jsh) \<in> set (fill2c_calls hermi shls_slice).
            ish - shls_slice ! 0 \<le> jsh - shls_slice ! 2) \<and>
         m' = fold (\<lambda>ic. NPdsymm_triu n (mat + ic * n * n) hermi) [0..ncomp - 1] m1 \<and>
         (\<forall>ic i j. 0 \<le> ic \<and> ic < ncomp \<and> 0 \<le> i \<and> i < n \<and> 0 \<le> j \<and> j < n \<longrightarrow>
            (hermi \<noteq> ANTIHERMI \<longrightarrow>
               m' (mat + ic * n * n + i * n + j) = m' (mat + ic * n * n + j * n + i)) \<and>
            (hermi = ANTIHERMI \<and> i \<noteq> j \<longrightarrow>
               m' (mat + ic * n * n + i * n + j) = - m' (mat + ic * n * n + j * n + i))))"
proof -
  define n where "n = ao_loc (shls_slice ! 1) - ao_loc (shls_slice ! 0)"
  define m0 where "m0 = snd (max_cache_size intor_fn shls_slice atm natm bas0 nbas env0
                               a b mesh weights m)"
  define m1 where "m1 = fold (fill2c_call intor_fn mat shls_slice ao_loc log_prec dimension
                                a b mesh weights atm natm bas0 nbas env0 cache)
                          (fill2c_calls hermi shls_slice) m0"
  define m' where "m' = NUMINT1e_fill2c intor_fn mat ncomp hermi shls_slice ao_loc log_prec
                          dimension a b mesh weights atm natm bas0 nbas env0 nenv cache m"
  have np: "hermi \<noteq> PLAIN" using hermi hermi_codes by auto
  have calls: "\<forall>(ish, jsh) \<in> set (fill2c_calls hermi shls_slice).
                 ish - shls_slice ! 0 \<le> jsh - shls_slice ! 2"
    using fill2c_calls_upper [OF _ np] by auto
  have struct: "m' = fold (\<lambda>ic. NPdsymm_triu n (mat + ic * n * n) hermi) [0..ncomp - 1] m1"
    unfolding m'_def NUMINT1e_fill2c_def Let_def split_beta fill2c_loop_calls
      m1_def m0_def n_def
    using np by simp
  have sym: "(hermi \<noteq> ANTIHERMI \<longrightarrow>
               m' (mat + ic * n * n + i * n + j) = m' (mat + ic * n * n + j * n + i)) \<and>
            (hermi = ANTIHERMI \<and> i \<noteq> j \<longrightarrow>
               m' (mat + ic * n * n + i * n + j) = - m' (mat + ic * n * n + j * n + i))"
    if r: "0 \<le> ic" "ic < ncomp" "0 \<le> i" "i < n" "0 \<le> j" "j < n" for ic i j
  proof -
    have ij: "m' (mat + ic * n * n + i * n + j) =
         (if i < j then
            (if hermi = HERMITIAN \<or> hermi = SYMMETRIC then m1 (mat + ic * n * n + j * n + i)
             else if hermi = ANTIHERMI then - m1 (mat + ic * n * n + j * n + i)
             else m1 (mat + ic * n * n + i * n + j))
          else m1 (mat + ic * n * n + i * n + j))"
      unfolding struct using r by (rule mirror_result)
    have ji: "m' (mat + ic * n * n + j * n + i) =
         (if j < i then
            (if hermi = HERMITIAN \<or> hermi = SYMMETRIC then m1 (mat + ic * n * n + i * n + j)
             else if hermi = ANTIHERMI then - m1 (mat + ic * n * n + i * n + j)
             else m1 (mat + ic * n * n + j * n + i))
          else m1 (mat + ic * n * n + j * n + i))"
      unfolding struct using r by (intro mirror_result) simp_all
    show ?thesis
      using hermi hermi_codes unfolding ij ji by (cases i j rule: linorder_cases) auto
  qed
  from calls struct sym show ?thesis
    unfolding n_def [symmetric] m0_def [symmetric] m1_def [symmetric] m'_def [symmetric]
      Let_def
    by blast
qed

lemma max_cache_size_probe:
  "max_cache_size probe_intor [0, 2, 0, 2] atm natm bas0 nbas env0 a b mesh weights m =
     (1, m)"
  by (simp add: max_cache_size_def probe_intor_def upto_rec1)

lemma fill2c_calls_square_2:
  "fill2c_calls HERMITIAN [0, 2, 0, 2] = [(0, 0), (0, 1), (1, 1)]"
  by (simp add: fill2c_calls_def hermi_codes upto_rec1 signed_divide_int_def
      signed_modulo_int_def)

theorem NUMINT1e_fill2c_mirror_witness:
  "(HERMITIAN = HERMITIAN \<or> HERMITIAN = ANTIHERMI \<or> HERMITIAN = SYMMETRIC) \<and>
   fill2c_calls HERMITIAN [0, 2, 0, 2] = [(0, 0), (0, 1), (1, 1)] \<and>
   (let m' = NUMINT1e_fill2c probe_intor 100 1 HERMITIAN [0, 2, 0, 2] (\<lambda>i. i) 0 3 [] [] []
               0 (\<lambda>s k. 0) 0 (\<lambda>s k. 0) 2 (\<lambda>p. 0) 0 0 (\<lambda>p. 0)
    in m' 102 = 3 \<and> m' 101 = m' 102)"
proof -
  let ?m' = "NUMINT1e_fill2c probe_intor 100 1 HERMITIAN [0, 2, 0, 2] (\<lambda>i. i) 0 3 [] [] []
               0 (\<lambda>s k. 0) 0 (\<lambda>s k. 0) 2 (\<lambda>p. 0) 0 0 (\<lambda>p. 0)"
  have h: "HERMITIAN = HERMITIAN \<or> HERMITIAN = ANTIHERMI \<or> HERMITIAN = SYMMETRIC"
    by simp
  note inst = NUMINT1e_fill2c_mirror [OF h, where ao_loc = "\<lambda>i. i"
      and shls_slice = "[0, 2, 0, 2]" and intor_fn = probe_intor and atm = "\<lambda>s k. 0"
      and natm = 0 and ?bas0.0 = "\<lambda>s k. 0" and nbas = 2 and ?env0.0 = "\<lambda>p. 0"
      and a = "[]" and b = "[]" and mesh = "[]" and weights = 0 and m = "\<lambda>p. 0"
      and mat = 100 and log_prec = 0 and dimension = 3 and cache = 0 and ncomp = 1
      and nenv = 0, unfolded Let_def]
  note sym_all = inst [THEN conjunct2, THEN conjunct2, rule_format, of 0 0 1]
  have "?m' (100 + 0 * 2 * 2 + 0 * 2 + 1) = ?m' (100 + 0 * 2 * 2 + 1 * 2 + 0)"
    using sym_all hermi_codes by simp
  then have sym: "?m' 101 = ?m' 102" by simp
  have val: "?m' 102 = 3"
    by (simp add: NUMINT1e_fill2c_def max_cache_size_probe fill2c_pair_def probe_intor_def
        NPdsymm_triu_def NULL_def hermi_codes upto_rec1 signed_divide_int_def
        signed_modulo_int_def Let_def)
  from h sym val fill2c_calls_square_2 show ?thesis by (simp add: Let_def)
qed

text \<open>C4, as the spec states it, fails. With the slices \<open>[1, 2)\<close> and \<open>[0, 1)\<close> the
  Hermitian mode calls the kernel for the shell pair \<open>(1, 0)\<close>. With one shell of one
  function and a kernel that stores 1, the anti-Hermitian mode leaves \<open>M[0,0] = 1\<close>, which
  is not \<open>- M[0,0]\<close>.\<close>

theorem NUMINT1e_fill2c_counterexample:
  "fill2c_calls HERMITIAN [1, 2, 0, 1] = [(1, 0)] \<and>
   (let m' = NUMINT1e_fill2c probe_intor 100 1 ANTIHERMI [0, 1, 0, 1] (\<lambda>i. i) 0 3 [] [] []
               0 (\<lambda>s k. 0) 0 (\<lambda>s k. 0) 1 (\<lambda>p. 0) 0 0 (\<lambda>p. 0)
    in m' 100 = 1 \<and> m' 100 \<noteq> - m' 100)"
proof -
  have a: "fill2c_calls HERMITIAN [1, 2, 0, 1] = [(1, 0)]"
    by (simp add: fill2c_calls_def hermi_codes upto_rec1 signed_divide_int_def
      signed_modulo_int_def)
  have b: "NUMINT1e_fill2c probe_intor 100 1 ANTIHERMI [0, 1, 0, 1] (\<lambda>i. i) 0 3 [] [] []
               0 (\<lambda>s k. 0) 0 (\<lambda>s k. 0) 1 (\<lambda>p. 0) 0 0 (\<lambda>p. 0) 100 = 1"
    by (simp add: NUMINT1e_fill2c_def max_cache_size_def fill2c_pair_def probe_intor_def
        NPdsymm_triu_def NULL_def hermi_codes upto_rec1 signed_divide_int_def
        signed_modulo_int_def Let_def)
  from a b show ?thesis by (simp add: Let_def)
qed

end
